(* ===== verification/Prelude.thy ===== *)
theory Prelude
  imports Complex_Main
begin

text \<open>
  Shared vocabulary of the development: JavaScript objects with string keys as
  insertion-ordered association lists, the JavaScript string operations the forms use
  (\<open>trim\<close>, truthiness of an optional string, ASCII digits), and the generic lemmas
  on them that the component theories use. The collection \<open>js_simps\<close> gathers the
  evaluation rules of the JavaScript semantics modelled here; component proofs add it
  with \<open>simp add: js_simps\<close>.
\<close>

named_theorems js_simps "evaluation rules of the modelled JavaScript semantics"

subsection \<open>Objects\<close>

text \<open>
  A plain object whose keys are not array indices keeps its keys in insertion order
  (\<open>Object.keys\<close>, \<open>Object.entries\<close>). Assigning to an existing key keeps its
  position; a new key is appended. The spread update \<open>{...ob, [k]: v}\<close> builds the
  same object as copying \<open>ob\<close> and then assigning \<open>k\<close>. Reading a missing key yields
  \<open>undefined\<close>, here \<open>None\<close>.
\<close>

type_synonym 'v js_object = "(string \<times> 'v) list"

definition obj_get :: "'v js_object \<Rightarrow> string \<Rightarrow> 'v option" where
  "obj_get ob k = map_of ob k"

fun obj_set :: "'v js_object \<Rightarrow> string \<Rightarrow> 'v \<Rightarrow> 'v js_object" where
  "obj_set [] k v = [(k, v)]"
| "obj_set ((k', v') # ob) k v = (if k' = k then (k, v) # ob else (k', v') # obj_set ob k v)"

definition obj_keys :: "'v js_object \<Rightarrow> string list" where
  "obj_keys ob = map fst ob"

subsection \<open>Strings\<close>

text \<open>
  Strings are lists of 8-bit code units (\<open>char list\<close>). \<open>String.prototype.trim\<close>
  removes white space and line terminators at both ends; of those, the ones below 0x100
  are tab, line feed, vertical tab, form feed, carriage return, space and no-break space
  (0xA0). Values typed into the form reach the model as these code units.
\<close>

definition js_space :: "char \<Rightarrow> bool" where
  "js_space c \<longleftrightarrow> c \<in> {CHR 0x09, CHR 0x0A, CHR 0x0B, CHR 0x0C, CHR 0x0D, CHR 0x20, CHR 0xA0}"

definition js_trim :: "string \<Rightarrow> string" where
  "js_trim s = rev (dropWhile js_space (rev (dropWhile js_space s)))"

text \<open>
  A property read from an object is a string or \<open>undefined\<close>. \<open>!value\<close> is true for
  \<open>undefined\<close> and for the empty string; \<open>value?.trim()\<close> is \<open>undefined\<close> for
  \<open>undefined\<close> and the trimmed string otherwise, and its truthiness asks for a
  non-empty trimmed string.
\<close>

definition js_falsy :: "string option \<Rightarrow> bool" where
  "js_falsy v \<longleftrightarrow> (case v of None \<Rightarrow> True | Some s \<Rightarrow> s = [])"

definition trim_truthy :: "string option \<Rightarrow> bool" where
  "trim_truthy v \<longleftrightarrow> (case v of None \<Rightarrow> False | Some s \<Rightarrow> js_trim s \<noteq> [])"

definition is_digit :: "char \<Rightarrow> bool" where
  "is_digit c \<longleftrightarrow> of_char CHR ''0'' \<le> (of_char c :: nat) \<and> of_char c \<le> (of_char CHR ''9'' :: nat)"

definition digit_val :: "char \<Rightarrow> nat" where
  "digit_val c = of_char c - of_char CHR ''0''"

declare obj_get_def [js_simps] obj_keys_def [js_simps] js_falsy_def [js_simps]
  trim_truthy_def [js_simps]

subsection \<open>Lemmas on objects\<close>

lemma obj_keys_set [simp]:
  "obj_keys (obj_set ob k v) = (if k \<in> set (obj_keys ob) then obj_keys ob else obj_keys ob @ [k])"
  by (induction ob k v rule: obj_set.induct) (auto simp: obj_keys_def)

lemma set_obj_keys_set [simp]: "set (obj_keys (obj_set ob k v)) = insert k (set (obj_keys ob))"
  by (induction ob k v rule: obj_set.induct) (auto simp: obj_keys_def)

lemma obj_get_set [simp]: "obj_get (obj_set ob k v) j = (if j = k then Some v else obj_get ob j)"
  by (induction ob k v rule: obj_set.induct) (auto simp: obj_get_def)

lemma distinct_obj_keys_set [simp]:
  "distinct (obj_keys ob) \<Longrightarrow> distinct (obj_keys (obj_set ob k v))"
  by simp

lemma obj_set_new: "k \<notin> set (obj_keys ob) \<Longrightarrow> obj_set ob k v = ob @ [(k, v)]"
  by (induction ob) (auto simp: obj_keys_def)

lemma obj_keys_Nil [simp]: "obj_keys [] = []"
  by (simp add: obj_keys_def)

lemma obj_set_non_empty [simp]: "obj_set ob k v \<noteq> []"
  by (induction ob k v rule: obj_set.induct) auto

lemma obj_get_None_iff: "obj_get ob k = None \<longleftrightarrow> k \<notin> set (obj_keys ob)"
  by (simp add: obj_get_def obj_keys_def map_of_eq_None_iff)

lemma obj_keys_Nil_iff [simp]: "obj_keys ob = [] \<longleftrightarrow> ob = []"
  by (simp add: obj_keys_def)

subsection \<open>Lemmas on strings\<close>

lemma dropWhile_all_Nil: "dropWhile P s = [] \<longleftrightarrow> (\<forall>c\<in>set s. P c)"
  by (induction s) auto

lemma dropWhile_all_iff: "(\<forall>c\<in>set (dropWhile P s). P c) \<longleftrightarrow> (\<forall>c\<in>set s. P c)"
  by (induction s) auto

lemma js_trim_Nil_iff: "js_trim s = [] \<longleftrightarrow> (\<forall>c\<in>set s. js_space c)"
  by (simp add: js_trim_def dropWhile_all_Nil dropWhile_all_iff)

lemma trim_truthy_Some: "trim_truthy (Some s) \<longleftrightarrow> (\<exists>c\<in>set s. \<not> js_space c)"
  by (simp add: trim_truthy_def js_trim_Nil_iff)

lemma trim_truthy_not_falsy: "trim_truthy v \<Longrightarrow> \<not> js_falsy v"
  by (auto simp: trim_truthy_def js_falsy_def js_trim_def split: option.splits)


lemma dropWhile_none: "(\<forall>c\<in>set s. \<not> P c) \<Longrightarrow> dropWhile P s = s"
  by (induction s) auto

lemma js_trim_id: "(\<forall>c\<in>set s. \<not> js_space c) \<Longrightarrow> js_trim s = s"
  by (simp add: js_trim_def dropWhile_none)

lemma is_digit_not_space: "is_digit c \<Longrightarrow> \<not> js_space c"
  by (auto simp: is_digit_def js_space_def)

subsection \<open>Lemmas on lists\<close>

lemma list_all_list_update: "list_all P xs \<Longrightarrow> P x \<Longrightarrow> list_all P (xs[i := x])"
  using set_update_subset_insert [of xs i x] by (auto simp: list_all_iff)

subsection \<open>Lemmas on sums\<close>

lemma map_sum_Inr_iff: "map_sum f g x = Inr y \<longleftrightarrow> (\<exists>z. x = Inr z \<and> y = g z)"
  by (cases x) auto

end
