(* ===== verification/Catalog.thy ===== *)
theory Catalog
  imports Prelude
begin

text \<open>
  The field schema catalog: the object literal \<open>apiResponses\<close> of
  \<open>src/src/components/DynamicForm.jsx\<close> (lines 40--58), which maps a form type to the
  ordered list of its field descriptors. A descriptor is the object literal
  \<open>{name, type, label, required, options}\<close>; \<open>options\<close> is present on dropdown
  fields only, so it is \<open>undefined\<close> (\<open>None\<close>) elsewhere. Looking a form type up is a
  property read on the object: an unknown type reads \<open>undefined\<close>.
\<close>

datatype field_type = Text | Number | Password | Date | Dropdown

record field_descriptor =
  fname :: string
  ftype :: field_type
  flabel :: string
  frequired :: bool
  foptions :: "string list option"

definition field :: "string \<Rightarrow> field_type \<Rightarrow> string \<Rightarrow> field_descriptor" where
  "field n t l = \<lparr>fname = n, ftype = t, flabel = l, frequired = True, foptions = None\<rparr>"

definition api_responses :: "field_descriptor list js_object" where
  "api_responses =
     [(''userInfo'',
        [field ''firstName'' Text ''First Name'',
         field ''lastName'' Text ''Last Name'',
         field ''age'' Number ''Age'']),
      (''address'',
        [field ''street'' Text ''Street'',
         field ''city'' Text ''City'',
         \<lparr>fname = ''state'', ftype = Dropdown, flabel = ''State'', frequired = True,
          foptions = Some [''California'', ''Texas'', ''New York'']\<rparr>,
         field ''zipCode'' Text ''Zip Code'']),
      (''payment'',
        [field ''cardNumber'' Text ''Card Number'',
         field ''expiryDate'' Date ''Expiry Date'',
         field ''cvv'' Password ''CVV'',
         field ''cardholderName'' Text ''Cardholder Name''])]"

definition lookup_schema :: "string \<Rightarrow> field_descriptor list option" where
  "lookup_schema t = obj_get api_responses t"

definition form_types :: "string list" where
  "form_types = obj_keys api_responses"

definition field_names :: "field_descriptor list \<Rightarrow> string list" where
  "field_names fs = map fname fs"

text \<open>Well-formedness of a schema: names unique, options exactly on dropdowns.\<close>

definition schema_ok :: "field_descriptor list \<Rightarrow> bool" where
  "schema_ok fs \<longleftrightarrow> distinct (field_names fs) \<and>
     (\<forall>f\<in>set fs. (ftype f = Dropdown) = (foptions f \<noteq> None))"

lemmas catalog_defs = api_responses_def field_def lookup_schema_def form_types_def
  field_names_def

subsection \<open>Lookup\<close>

lemma lookup_schema_Some_iff: "lookup_schema t \<noteq> None \<longleftrightarrow> t \<in> set form_types"
  by (simp add: lookup_schema_def form_types_def obj_get_None_iff)

lemma lookup_schema_cases:
  "lookup_schema t = Some fs \<Longrightarrow>
     (t = ''userInfo'' \<and> fs = the (lookup_schema ''userInfo'')) \<or>
     (t = ''address'' \<and> fs = the (lookup_schema ''address'')) \<or>
     (t = ''payment'' \<and> fs = the (lookup_schema ''payment''))"
  by (auto simp: lookup_schema_def api_responses_def obj_get_def split: if_splits)

lemma schema_required:
  "lookup_schema t = Some fs \<Longrightarrow> fs \<noteq> [] \<and> list_all frequired fs"
  using lookup_schema_cases [of t fs] by (auto simp: lookup_schema_def api_responses_def obj_get_def field_def)

lemma lookup_schema_ok: "lookup_schema t = Some fs \<Longrightarrow> schema_ok fs"
  using lookup_schema_cases [of t fs]
  by (auto simp: lookup_schema_def api_responses_def obj_get_def field_def schema_ok_def field_names_def)

lemma schema_fname_inj:
  "lookup_schema t = Some fs \<Longrightarrow> f \<in> set fs \<Longrightarrow> g \<in> set fs \<Longrightarrow> fname f = fname g \<Longrightarrow> f = g"
  using lookup_schema_ok [of t fs] by (auto simp: schema_ok_def field_names_def dest: inj_onD [OF distinct_map [THEN iffD1, THEN conjunct2]])

subsection \<open>Properties\<close>

text \<open>The catalog is well formed: the three form types are distinct, and each
  schema is non-empty, has distinct field names, carries options exactly on its dropdown
  fields, and marks every field required.\<close>

lemma catalog_well_formed:
  "form_types = [''userInfo'', ''address'', ''payment''] \<and> distinct form_types \<and>
   list_all (\<lambda>(t, fs). fs \<noteq> [] \<and> schema_ok fs \<and> list_all frequired fs) api_responses"
  by (simp add: catalog_defs schema_ok_def obj_keys_def)

end
