(* ===== verification/JsNumber.thy ===== *)
theory JsNumber
  imports Prelude
begin

text \<open>
  JavaScript numbers as far as the forms use them: the \<open>age\<close> rule of
  \<open>validateField\<close> compares a string with a number (\<open>value < 1 || value > 120\<close>,
  \<open>DynamicForm.jsx\<close> line 11), which converts the string by \<open>ToNumber\<close>, and
  \<open>handleChange\<close> computes the progress as \<open>(filled / required) * 100\<close> (line 86).
  A number is NaN, a finite value, or an infinity. Finite values are kept exactly as
  rationals: the model does not round to binary64, which changes no comparison with
  the integers 1 and 120 except for decimal literals within half an ulp of them, and no
  progress value except in its last bits. Signed zero is not modelled.

  \<open>str_to_number\<close> follows StringToNumber (ECMA-262, StringNumericLiteral): the
  string is trimmed; the empty string is 0; otherwise it must be, as a whole, a decimal
  literal with optional sign, fraction and exponent, \<open>Infinity\<close> with optional sign,
  or an unsigned \<open>0x\<close>/\<open>0o\<close>/\<open>0b\<close> integer; anything else is NaN.
\<close>

datatype js_number = NaN | Num rat | PosInf | NegInf

fun js_neg :: "js_number \<Rightarrow> js_number" where
  "js_neg NaN = NaN"
| "js_neg (Num a) = Num (- a)"
| "js_neg PosInf = NegInf"
| "js_neg NegInf = PosInf"

definition digits_value :: "string \<Rightarrow> nat" where
  "digits_value ds = foldl (\<lambda>n c. 10 * n + digit_val c) 0 ds"

definition pow10 :: "int \<Rightarrow> rat" where
  "pow10 k = (if 0 \<le> k then 10 ^ nat k else 1 / 10 ^ nat (- k))"

definition unsigned_digits :: "string \<Rightarrow> int option" where
  "unsigned_digits ds = (if ds \<noteq> [] \<and> list_all is_digit ds then Some (int (digits_value ds)) else None)"

text \<open>ExponentPart: \<open>e\<close> or \<open>E\<close>, an optional sign, at least one digit.\<close>

definition parse_exponent :: "string \<Rightarrow> int option" where
  "parse_exponent r =
     (case r of
       [] \<Rightarrow> Some 0
     | c # r' \<Rightarrow>
         if c = CHR ''e'' \<or> c = CHR ''E'' then
           (case r' of
             [] \<Rightarrow> None
           | s # ds \<Rightarrow>
               if s = CHR ''+'' then unsigned_digits ds
               else if s = CHR ''-'' then map_option uminus (unsigned_digits ds)
               else unsigned_digits r')
         else None)"

definition decimal_value :: "string \<Rightarrow> nat \<Rightarrow> string \<Rightarrow> js_number option" where
  "decimal_value ms nfrac r =
     map_option (\<lambda>e. Num (of_nat (digits_value ms) * pow10 (e - int nfrac))) (parse_exponent r)"

text \<open>StrUnsignedDecimalLiteral: \<open>Infinity\<close>, \<open>D.D? E?\<close>, \<open>.D E?\<close> or \<open>D E?\<close>.\<close>

definition parse_unsigned_decimal :: "string \<Rightarrow> js_number option" where
  "parse_unsigned_decimal r =
     (if r = ''Infinity'' then Some PosInf
      else
        let d1 = takeWhile is_digit r; r1 = dropWhile is_digit r in
        (case r1 of
          c # r2 \<Rightarrow>
            if c = CHR ''.'' then
              (let d2 = takeWhile is_digit r2; r3 = dropWhile is_digit r2 in
               if d1 = [] \<and> d2 = [] then None else decimal_value (d1 @ d2) (length d2) r3)
            else if d1 = [] then None else decimal_value d1 0 r1
        | [] \<Rightarrow> if d1 = [] then None else decimal_value d1 0 []))"

text \<open>NonDecimalIntegerLiteral: \<open>0x\<close>, \<open>0o\<close>, \<open>0b\<close> (either case) and digits of the radix.\<close>

definition radix_digit :: "nat \<Rightarrow> char \<Rightarrow> nat option" where
  "radix_digit b c =
     (let n = of_char c :: nat;
          d = (if 48 \<le> n \<and> n \<le> 57 then Some (n - 48)
               else if 97 \<le> n \<and> n \<le> 102 then Some (n - 87)
               else if 65 \<le> n \<and> n \<le> 70 then Some (n - 55) else None)
      in (case d of Some v \<Rightarrow> if v < b then Some v else None | None \<Rightarrow> None))"

fun radix_value :: "nat \<Rightarrow> nat \<Rightarrow> string \<Rightarrow> nat option" where
  "radix_value b acc [] = Some acc"
| "radix_value b acc (c # cs) =
     (case radix_digit b c of None \<Rightarrow> None | Some v \<Rightarrow> radix_value b (b * acc + v) cs)"

definition radix_of :: "char \<Rightarrow> nat option" where
  "radix_of c =
     (if c = CHR ''x'' \<or> c = CHR ''X'' then Some 16
      else if c = CHR ''o'' \<or> c = CHR ''O'' then Some 8
      else if c = CHR ''b'' \<or> c = CHR ''B'' then Some 2 else None)"

definition parse_non_decimal :: "string \<Rightarrow> js_number option" where
  "parse_non_decimal r =
     (case r of
       z # c # ds \<Rightarrow>
         if z = CHR ''0'' \<and> ds \<noteq> [] then
           (case radix_of c of
             None \<Rightarrow> None
           | Some b \<Rightarrow> map_option (\<lambda>n. Num (of_nat n)) (radix_value b 0 ds))
         else None
     | _ \<Rightarrow> None)"

definition parse_str_numeric :: "string \<Rightarrow> js_number option" where
  "parse_str_numeric t =
     (case t of
       [] \<Rightarrow> None
     | c # r \<Rightarrow>
         if c = CHR ''+'' then parse_unsigned_decimal r
         else if c = CHR ''-'' then map_option js_neg (parse_unsigned_decimal r)
         else (case parse_non_decimal t of
                 Some n \<Rightarrow> Some n
               | None \<Rightarrow> parse_unsigned_decimal t))"

definition str_to_number :: "string \<Rightarrow> js_number" where
  "str_to_number s =
     (let t = js_trim s in
      if t = [] then Num 0
      else (case parse_str_numeric t of None \<Rightarrow> NaN | Some n \<Rightarrow> n))"

subsection \<open>Comparison and arithmetic\<close>

text \<open>
  Number::lessThan: a comparison with NaN is \<open>undefined\<close>, which \<open><\<close> and \<open>>\<close>
  read as false.
\<close>

fun js_less :: "js_number \<Rightarrow> js_number \<Rightarrow> bool" where
  "js_less NaN y = False"
| "js_less x NaN = False"
| "js_less (Num a) (Num b) = (a < b)"
| "js_less NegInf y = (y \<noteq> NegInf)"
| "js_less x PosInf = (x \<noteq> PosInf)"
| "js_less x y = False"

text \<open>
  \<open>x <= y\<close> is \<open>!(y < x)\<close> when that comparison is defined: false when either
  side is NaN.
\<close>

definition js_le :: "js_number \<Rightarrow> js_number \<Rightarrow> bool" where
  "js_le x y \<longleftrightarrow> x \<noteq> NaN \<and> y \<noteq> NaN \<and> \<not> js_less y x"

fun js_div :: "js_number \<Rightarrow> js_number \<Rightarrow> js_number" where
  "js_div (Num a) (Num b) =
     (if b \<noteq> 0 then Num (a / b) else if a = 0 then NaN else if 0 < a then PosInf else NegInf)"
| "js_div (Num a) PosInf = Num 0"
| "js_div (Num a) NegInf = Num 0"
| "js_div PosInf (Num b) = (if b < 0 then NegInf else PosInf)"
| "js_div NegInf (Num b) = (if b < 0 then PosInf else NegInf)"
| "js_div x y = NaN"

fun js_mul :: "js_number \<Rightarrow> js_number \<Rightarrow> js_number" where
  "js_mul (Num a) (Num b) = Num (a * b)"
| "js_mul NaN y = NaN"
| "js_mul x NaN = NaN"
| "js_mul (Num a) y = (if a = 0 then NaN else if 0 < a then y else js_neg y)"
| "js_mul x (Num b) = (if b = 0 then NaN else if 0 < b then x else js_neg x)"
| "js_mul x y = (if x = y then PosInf else NegInf)"

subsection \<open>Decimal digit strings\<close>

text \<open>
  \<open>show_nat\<close> prints a natural number in decimal, as \<open>Number.prototype.toString\<close>
  does for integers below \<open>2^53\<close>; it is the reference printer against which the
  parser is checked.
\<close>

fun show_nat :: "nat \<Rightarrow> string" where
  "show_nat n = (if n < 10 then [char_of (48 + n)] else show_nat (n div 10) @ [char_of (48 + n mod 10)])"

declare show_nat.simps [simp del]

lemma digit_char_of: "d < 10 \<Longrightarrow> is_digit (char_of (48 + d)) \<and> digit_val (char_of (48 + d)) = d"
  by (simp add: is_digit_def digit_val_def of_char_of)

lemma digits_value_snoc: "digits_value (ds @ [c]) = 10 * digits_value ds + digit_val c"
  by (simp add: digits_value_def)

lemma show_nat_digits: "show_nat n \<noteq> [] \<and> list_all is_digit (show_nat n) \<and> digits_value (show_nat n) = n"
proof (induction n rule: show_nat.induct)
  case (1 n)
  show ?case
  proof (cases "n < 10")
    case True
    then show ?thesis by (simp add: show_nat.simps [of n] digit_char_of digits_value_def)
  next
    case False
    with "1.IH" have ih: "list_all is_digit (show_nat (n div 10)) \<and> digits_value (show_nat (n div 10)) = n div 10"
      by simp
    have d: "n mod 10 < 10" by simp
    from False ih digit_char_of [OF d] show ?thesis
      by (simp add: show_nat.simps [of n] digits_value_snoc)
  qed
qed

lemma radix_of_digit: "is_digit c \<Longrightarrow> radix_of c = None"
  by (auto simp: is_digit_def radix_of_def)

lemma parse_non_decimal_digits: "list_all is_digit ds \<Longrightarrow> parse_non_decimal ds = None"
  by (auto simp: parse_non_decimal_def radix_of_digit split: list.splits)

lemma parse_unsigned_decimal_digits:
  assumes "ds \<noteq> []" and "list_all is_digit ds"
  shows "parse_unsigned_decimal ds = Some (Num (of_nat (digits_value ds)))"
proof -
  have ni: "ds \<noteq> ''Infinity''"
    using assms(2) by (auto simp: is_digit_def)
  have tw: "takeWhile is_digit ds = ds" and dw: "dropWhile is_digit ds = []"
    using assms(2) by (simp_all add: list_all_iff)
  show ?thesis
    unfolding parse_unsigned_decimal_def Let_def tw dw
    using assms(1) ni by (simp add: decimal_value_def parse_exponent_def pow10_def)
qed

lemma str_to_number_digits:
  assumes "ds \<noteq> []" and "list_all is_digit ds"
  shows "str_to_number ds = Num (of_nat (digits_value ds))"
proof -
  have trim: "js_trim ds = ds"
    using assms(2) by (auto intro: js_trim_id simp: list_all_iff is_digit_not_space)
  obtain c r where ds: "ds = c # r" using assms(1) by (cases ds) auto
  have "\<not> (c = CHR ''+'' \<or> c = CHR ''-'')" using assms(2) ds by (auto simp: is_digit_def)
  then have "parse_str_numeric ds = Some (Num (of_nat (digits_value ds)))"
    using ds parse_non_decimal_digits [OF assms(2)] parse_unsigned_decimal_digits [OF assms]
    by (simp add: parse_str_numeric_def)
  with trim assms(1) show ?thesis by (simp add: str_to_number_def)
qed

text \<open>Parsing inverts printing: \<open>ToNumber\<close> of the decimal representation of a
  natural number is that number.\<close>

lemma str_to_number_show_nat: "str_to_number (show_nat n) = Num (of_nat n)"
  using show_nat_digits [of n] str_to_number_digits [of "show_nat n"] by simp
lemma js_le_Num [simp]: "js_le (Num a) (Num b) \<longleftrightarrow> a \<le> b"
  by (auto simp: js_le_def)

lemma js_le_NaN [simp]: "\<not> js_le NaN y" "\<not> js_le x NaN"
  by (simp_all add: js_le_def)

end
