(* ===== verification/JsDate.thy ===== *)
theory JsDate
  imports JsNumber
begin

text \<open>
  JavaScript dates as the \<open>expiryDate\<close> rule of \<open>validateField\<close> uses them
  (\<open>DynamicForm.jsx\<close> lines 20--26): \<open>new Date(value)\<close> parses the field's string,
  \<open>new Date()\<close> reads the clock, and \<open>inputDate <= currentDate\<close> compares the two
  time values (milliseconds since the epoch; an unparsable string gives NaN, and every
  comparison with NaN is false).

  The parser follows the ECMA-262 Date Time String Format: a date \<open>YYYY\<close>,
  \<open>YYYY-MM\<close> or \<open>YYYY-MM-DD\<close>, where the year may also be expanded (\<open>+YYYYYY\<close>,
  \<open>-YYYYYY\<close>, with \<open>-000000\<close> illegal), optionally followed by a time \<open>THH:mm\<close>,
  \<open>THH:mm:ss\<close> or \<open>THH:mm:ss.sss\<close> and then optionally by a UTC offset \<open>Z\<close>,
  \<open>+HH:mm\<close> or \<open>-HH:mm\<close>. Date-only forms are UTC; date-time forms without an offset
  are local time, that is, shifted by \<open>LocalTZA\<close>, which the standard leaves to the
  implementation and which the model fixes to 0 (a host in UTC). \<open>T24:00\<close> is the end
  of the day; any other out-of-range field, and a day beyond its month's length, gives
  NaN, as does a result outside \<open>TimeClip\<close>'s range. Strings outside the format, for
  which engines fall back to heuristics that the standard leaves to the implementation,
  are modelled as unparsable (NaN). The day arithmetic is the standard's:
  \<open>DayFromYear\<close>, \<open>DaysInYear\<close>, \<open>MakeDay\<close>, \<open>MakeTime\<close> and \<open>MakeDate\<close>. The clock is a parameter \<open>now\<close> (milliseconds).
\<close>

definition ms_per_day :: int where
  "ms_per_day = 86400000"

definition day_from_year :: "int \<Rightarrow> int" where
  "day_from_year y = 365 * (y - 1970) + (y - 1969) div 4 - (y - 1901) div 100 + (y - 1601) div 400"

definition days_in_year :: "int \<Rightarrow> int" where
  "days_in_year y =
     (if y mod 4 \<noteq> 0 then 365 else if y mod 100 \<noteq> 0 then 366 else if y mod 400 \<noteq> 0 then 365 else 366)"

text \<open>Months are numbered from 0, as in \<open>MakeDay\<close>.\<close>

definition days_in_month :: "int \<Rightarrow> nat \<Rightarrow> int" where
  "days_in_month y m =
     (if m = 1 then days_in_year y - 337
      else if m \<in> {3, 5, 8, 10} then 30 else 31)"

definition day_from_month :: "int \<Rightarrow> nat \<Rightarrow> int" where
  "day_from_month y m = sum_list (map (days_in_month y) [0..<m])"

definition make_day :: "int \<Rightarrow> nat \<Rightarrow> int \<Rightarrow> int" where
  "make_day y m d = day_from_year y + day_from_month y m + d - 1"

definition valid_date :: "int \<Rightarrow> nat \<Rightarrow> int \<Rightarrow> bool" where
  "valid_date y m d \<longleftrightarrow> m < 12 \<and> 1 \<le> d \<and> d \<le> days_in_month y m"

text \<open>Fixed-width decimal fields: \<open>n\<close> ASCII digits and the rest of the string.\<close>

definition digits_n :: "nat \<Rightarrow> string \<Rightarrow> (nat \<times> string) option" where
  "digits_n n s = (if n \<le> length s \<and> list_all is_digit (take n s) then Some (digits_value (take n s), drop n s) else None)"

definition starts_with :: "char \<Rightarrow> string \<Rightarrow> bool" where
  "starts_with c s \<longleftrightarrow> s \<noteq> [] \<and> hd s = c"

text \<open>\<open>YYYY\<close>, or an expanded year: a sign and six digits, where \<open>-000000\<close> is illegal.\<close>

definition parse_year :: "string \<Rightarrow> (int \<times> string) option" where
  "parse_year s =
     (if starts_with CHR ''+'' s \<or> starts_with CHR ''-'' s then
        (case digits_n 6 (tl s) of
          None \<Rightarrow> None
        | Some (y, r) \<Rightarrow>
            if starts_with CHR ''-'' s then (if y = 0 then None else Some (- int y, r)) else Some (int y, r))
      else map_option (\<lambda>(y, r). (int y, r)) (digits_n 4 s))"

text \<open>\<open>YYYY\<close>, \<open>YYYY-MM\<close> or \<open>YYYY-MM-DD\<close>; an absent month or day is 01.\<close>

definition parse_date :: "string \<Rightarrow> ((int \<times> nat \<times> nat) \<times> string) option" where
  "parse_date s =
     Option.bind (parse_year s) (\<lambda>(y, r).
       if starts_with CHR ''-'' r then
         Option.bind (digits_n 2 (tl r)) (\<lambda>(m, r2).
           if starts_with CHR ''-'' r2 then map_option (\<lambda>(d, r3). ((y, m, d), r3)) (digits_n 2 (tl r2))
           else Some ((y, m, 1), r2))
       else Some ((y, 1, 1), r))"

text \<open>\<open>HH:mm\<close>, \<open>HH:mm:ss\<close> or \<open>HH:mm:ss.sss\<close> after the \<open>T\<close>.\<close>

definition parse_time :: "string \<Rightarrow> ((nat \<times> nat \<times> nat \<times> nat) \<times> string) option" where
  "parse_time s =
     Option.bind (digits_n 2 s) (\<lambda>(h, r1).
       if starts_with CHR '':'' r1 then
         Option.bind (digits_n 2 (tl r1)) (\<lambda>(mi, r2).
           if starts_with CHR '':'' r2 then
             Option.bind (digits_n 2 (tl r2)) (\<lambda>(sec, r3).
               if starts_with CHR ''.'' r3 then map_option (\<lambda>(ms, r4). ((h, mi, sec, ms), r4)) (digits_n 3 (tl r3))
               else Some ((h, mi, sec, 0), r3))
           else Some ((h, mi, 0, 0), r2))
       else None)"

text \<open>The UTC offset after a time: absent (\<open>Some None\<close>), \<open>Z\<close>, or \<open>+HH:mm\<close> /
  \<open>-HH:mm\<close> in milliseconds; anything else is a syntax error (\<open>None\<close>).\<close>

definition parse_offset :: "string \<Rightarrow> int option option" where
  "parse_offset s =
     (if s = [] then Some None
      else if s = ''Z'' then Some (Some 0)
      else if starts_with CHR ''+'' s \<or> starts_with CHR ''-'' s then
        (case digits_n 2 (tl s) of
          None \<Rightarrow> None
        | Some (oh, r) \<Rightarrow>
            if starts_with CHR '':'' r then
              (case digits_n 2 (tl r) of
                Some (om, []) \<Rightarrow>
                  if oh \<le> 23 \<and> om \<le> 59
                  then Some (Some ((if starts_with CHR ''-'' s then -1 else 1) * int (60000 * (60 * oh + om))))
                  else None
              | _ \<Rightarrow> None)
            else None)
      else None)"

text \<open>\<open>MakeTime\<close> on whole fields, \<open>TimeClip\<close>, and \<open>LocalTZA\<close>: the offset of the
  host's time zone, which the standard leaves to the implementation. The model fixes a
  host in UTC (offset 0); it enters only date-time strings without an offset.\<close>

definition make_time :: "nat \<Rightarrow> nat \<Rightarrow> nat \<Rightarrow> nat \<Rightarrow> int" where
  "make_time h mi sec ms = int (3600000 * h + 60000 * mi + 1000 * sec + ms)"

definition time_clip :: "int \<Rightarrow> js_number" where
  "time_clip t = (if \<bar>t\<bar> \<le> 8640000000000000 then Num (of_int t) else NaN)"

definition local_tza :: int where
  "local_tza = 0"

definition date_parse :: "string \<Rightarrow> js_number" where
  "date_parse s =
     (case parse_date s of
       None \<Rightarrow> NaN
     | Some ((y, m, d), r) \<Rightarrow>
         if \<not> (1 \<le> m \<and> valid_date y (m - 1) (int d)) then NaN
         else if r = [] then time_clip (make_day y (m - 1) (int d) * ms_per_day)
         else if starts_with CHR ''T'' r then
           (case parse_time (tl r) of
             None \<Rightarrow> NaN
           | Some ((h, mi, sec, ms), r') \<Rightarrow>
               if (h < 24 \<and> mi < 60 \<and> sec < 60) \<or> (h = 24 \<and> mi = 0 \<and> sec = 0 \<and> ms = 0) then
                 (case parse_offset r' of
                   None \<Rightarrow> NaN
                 | Some off \<Rightarrow>
                     time_clip (make_day y (m - 1) (int d) * ms_per_day + make_time h mi sec ms -
                                (case off of None \<Rightarrow> local_tza | Some ofs \<Rightarrow> ofs)))
               else NaN)
         else NaN)"

text \<open>The calendar order of dates: year, then month, then day.\<close>

definition date_before :: "int \<times> nat \<times> int \<Rightarrow> int \<times> nat \<times> int \<Rightarrow> bool" where
  "date_before a b \<longleftrightarrow>
     (case (a, b) of ((y, m, d), (y', m', d')) \<Rightarrow>
        y < y' \<or> (y = y' \<and> (m < m' \<or> (m = m' \<and> d < d'))))"

subsection \<open>Day arithmetic\<close>

lemma date_parse_Nil [simp]: "date_parse [] = NaN"
  by (simp add: date_parse_def parse_date_def parse_year_def digits_n_def starts_with_def)


lemma div_Suc_step: "1 < (n::int) \<Longrightarrow> (a + 1) div n = a div n + (if (a + 1) mod n = 0 then 1 else 0)"
proof -
  assume n: "1 < n"
  have "(a + 1) div n = a div n + 1 div n + (a mod n + 1 mod n) div n"
    by (rule div_add1_eq)
  moreover have "1 div n = 0" "1 mod n = 1" using n by simp_all
  moreover have "(a mod n + 1) div n = (if (a + 1) mod n = 0 then 1 else 0)"
  proof (cases "a mod n + 1 = n")
    case True
    then have "(a + 1) mod n = 0" by (metis mod_add_left_eq mod_self)
    with True n show ?thesis by simp
  next
    case False
    have nn: "0 \<le> a mod n" "a mod n < n" using n by simp_all
    with False have lt: "0 \<le> a mod n + 1" "a mod n + 1 < n" by simp_all
    then have "(a mod n + 1) div n = 0" by (simp add: div_pos_pos_trivial)
    moreover have "(a + 1) mod n = a mod n + 1"
      using lt by (metis mod_add_left_eq mod_pos_pos_trivial)
    ultimately show ?thesis using nn by simp
  qed
  ultimately show ?thesis by simp
qed

lemma div4_step: "(y + 1 - 1969) div 4 = (y - 1969) div 4 + (if y mod 4 = 0 then 1 else (0::int))"
proof -
  have "(y - 1969 + 1) mod 4 = 0 \<longleftrightarrow> y mod 4 = 0" by presburger
  then show ?thesis using div_Suc_step [of 4 "y - 1969"] by (simp add: algebra_simps)
qed

lemma div100_step: "(y + 1 - 1901) div 100 = (y - 1901) div 100 + (if y mod 100 = 0 then 1 else (0::int))"
proof -
  have "(y - 1901 + 1) mod 100 = 0 \<longleftrightarrow> y mod 100 = 0" by presburger
  then show ?thesis using div_Suc_step [of 100 "y - 1901"] by (simp add: algebra_simps)
qed

lemma div400_step: "(y + 1 - 1601) div 400 = (y - 1601) div 400 + (if y mod 400 = 0 then 1 else (0::int))"
proof -
  have "(y - 1601 + 1) mod 400 = 0 \<longleftrightarrow> y mod 400 = 0" by presburger
  then show ?thesis using div_Suc_step [of 400 "y - 1601"] by (simp add: algebra_simps)
qed

lemma day_from_year_Suc: "day_from_year (y + 1) = day_from_year y + days_in_year y"
proof -
  have d: "y mod 100 = 0 \<Longrightarrow> y mod 4 = 0" "y mod 400 = 0 \<Longrightarrow> y mod 100 = 0" for y :: int
    by presburger+
  show ?thesis unfolding day_from_year_def days_in_year_def div4_step div100_step div400_step
    using d [of y] by auto
qed

lemma days_in_year_cases: "days_in_year y = 365 \<or> days_in_year y = 366"
  by (simp add: days_in_year_def)

lemma days_in_month_pos: "0 < days_in_month y m"
  using days_in_year_cases [of y] by (auto simp: days_in_month_def)

lemma day_from_month_Suc: "day_from_month y (Suc m) = day_from_month y m + days_in_month y m"
  by (simp add: day_from_month_def)

lemma day_from_month_12: "day_from_month y 12 = days_in_year y"
  by (simp add: day_from_month_def days_in_month_def numeral_eq_Suc)

lemma day_from_month_mono: "m \<le> m' \<Longrightarrow> day_from_month y m \<le> day_from_month y m'"
proof (induction m' rule: nat_induct)
  case 0
  then show ?case by simp
next
  case (Suc k)
  then show ?case
    using days_in_month_pos [of y k] by (cases "m = Suc k") (auto simp: day_from_month_Suc)
qed

lemma day_from_year_mono: "y < y' \<Longrightarrow> day_from_year y + days_in_year y \<le> day_from_year y'"
proof (induction "nat (y' - y - 1)" arbitrary: y')
  case 0
  then have "y' = y + 1" by simp
  then show ?case by (simp add: day_from_year_Suc)
next
  case (Suc k)
  then have "y < y' - 1" and k: "k = nat (y' - 1 - y - 1)" by simp_all
  with Suc.hyps(1) [OF k] have "day_from_year y + days_in_year y \<le> day_from_year (y' - 1)" by simp
  moreover have "day_from_year (y' - 1) + days_in_year (y' - 1) = day_from_year y'"
    using day_from_year_Suc [of "y' - 1"] by simp
  moreover have "0 \<le> days_in_year (y' - 1)" by (simp add: days_in_year_def)
  ultimately show ?case by linarith
qed

lemma make_day_in_year:
  assumes "valid_date y m d"
  shows "day_from_year y \<le> make_day y m d \<and> make_day y m d < day_from_year y + days_in_year y"
proof -
  from assms have m: "Suc m \<le> 12" and d: "1 \<le> d" "d \<le> days_in_month y m"
    by (simp_all add: valid_date_def)
  have "day_from_month y (Suc m) \<le> day_from_month y 12" using m by (rule day_from_month_mono)
  then have "day_from_month y m + days_in_month y m \<le> days_in_year y"
    by (simp add: day_from_month_Suc day_from_month_12)
  moreover have "0 \<le> day_from_month y m" using day_from_month_mono [of 0 m y]
    by (simp add: day_from_month_def)
  ultimately show ?thesis using d by (simp add: make_day_def)
qed

lemma make_day_mono_month:
  assumes "valid_date y m d" and "valid_date y m' d'" and "m < m'"
  shows "make_day y m d < make_day y m' d'"
proof -
  have "d \<le> days_in_month y m" "1 \<le> d'" using assms(1,2) by (simp_all add: valid_date_def)
  moreover have "day_from_month y (Suc m) \<le> day_from_month y m'"
    using assms(3) by (simp add: day_from_month_mono)
  ultimately show ?thesis by (simp add: make_day_def day_from_month_Suc)
qed

text \<open>Day numbers follow the calendar: of two valid dates, the earlier has the
  smaller day number, so parsed date-only strings compare as their dates do.\<close>

lemma make_day_strict_mono:
  assumes "valid_date y m d" and "valid_date y' m' d'" and "date_before (y, m, d) (y', m', d')"
  shows "make_day y m d < make_day y' m' d'"
proof -
  consider "y < y'" | "y = y'" "m < m'" | "y = y'" "m = m'" "d < d'"
    using assms(3) by (auto simp: date_before_def)
  then show ?thesis
  proof cases
    case 1
    then show ?thesis using make_day_in_year [OF assms(1)] make_day_in_year [OF assms(2)]
      day_from_year_mono [OF 1] by linarith
  next
    case 2
    then show ?thesis using assms(1,2) make_day_mono_month by simp
  next
    case 3
    then show ?thesis by (simp add: make_day_def)
  qed
qed


end
