(* ===== verification/Validator.thy ===== *)
theory Validator
  imports Catalog JsDate
begin

text \<open>
  The validator: \<open>validateField(key, value)\<close> of
  \<open>src/src/components/DynamicForm.jsx\<close> (lines 8--31). It returns an error message or
  \<open>null\<close> (\<open>None\<close>). The rules are chosen by the field's name, in the order of the
  source: the required check (\<open>!value\<close>, true for \<open>undefined\<close> and \<open>""\<close>), the
  \<open>age\<close> range (a string-to-number comparison), the \<open>zipCode\<close>, \<open>cardNumber\<close> and
  \<open>cvv\<close> patterns, and the \<open>expiryDate\<close> comparison with the clock, which is the
  parameter \<open>now\<close> (milliseconds since the epoch, the value of \<open>new Date()\<close>).

  \<open>/^\d{n}$/.test(value)\<close> holds exactly when the string has \<open>n\<close> characters and each is
  an ASCII digit: without the \<open>m\<close> flag \<open>^\<close> and \<open>$\<close> match only at the ends of
  the input, and \<open>\d\<close> is \<open>[0-9]\<close>.
\<close>

definition test_digits :: "nat \<Rightarrow> string \<Rightarrow> bool" where
  "test_digits n v \<longleftrightarrow> length v = n \<and> list_all is_digit v"

definition validate_field :: "int \<Rightarrow> string \<Rightarrow> string option \<Rightarrow> string option" where
  "validate_field now key value =
     (case value of
       None \<Rightarrow> Some (key @ '' is required.'')
     | Some v \<Rightarrow>
         if v = [] then Some (key @ '' is required.'')
         else if key = ''age'' \<and>
                 (js_less (str_to_number v) (Num 1) \<or> js_less (Num 120) (str_to_number v))
           then Some (key @ '' must be between 1 and 120.'')
         else if key = ''zipCode'' \<and> \<not> test_digits 6 v
           then Some (key @ '' must be a 6-digit number.'')
         else if key = ''cardNumber'' \<and> \<not> test_digits 16 v
           then Some (key @ '' must be a 16-digit number.'')
         else if key = ''expiryDate'' \<and> js_le (date_parse v) (Num (of_int now))
           then Some (key @ '' must be a valid future date.'')
         else if key = ''cvv'' \<and> \<not> test_digits 3 v
           then Some (key @ '' must be a 3-digit number.'')
         else None)"

definition rule_keys :: "string list" where
  "rule_keys = [''age'', ''zipCode'', ''cardNumber'', ''expiryDate'', ''cvv'']"

subsection \<open>Per-rule behaviour\<close>

lemma validate_field_valid_nonempty: "validate_field now k v = None \<Longrightarrow> \<not> js_falsy v"
  by (auto simp: validate_field_def js_falsy_def split: option.splits if_splits)

lemma test_digits_Nil [simp]: "test_digits n [] \<longleftrightarrow> n = 0"
  by (simp add: test_digits_def)

lemma validate_field_zip: "validate_field now ''zipCode'' (Some v) = None \<longleftrightarrow> test_digits 6 v"
  by (auto simp: validate_field_def)

lemma validate_field_card: "validate_field now ''cardNumber'' (Some v) = None \<longleftrightarrow> test_digits 16 v"
  by (auto simp: validate_field_def)

lemma validate_field_cvv: "validate_field now ''cvv'' (Some v) = None \<longleftrightarrow> test_digits 3 v"
  by (auto simp: validate_field_def)

lemma validate_field_age:
  "validate_field now ''age'' (Some v) = None \<longleftrightarrow>
     v \<noteq> [] \<and> \<not> js_less (str_to_number v) (Num 1) \<and> \<not> js_less (Num 120) (str_to_number v)"
  by (simp add: validate_field_def)

lemma validate_field_expiry:
  "validate_field now ''expiryDate'' (Some v) = None \<longleftrightarrow>
     v \<noteq> [] \<and> \<not> js_le (date_parse v) (Num (of_int now))"
  by (simp add: validate_field_def)

subsection \<open>Properties\<close>

text \<open>C14. The zipCode, cardNumber and cvv rules accept exactly the strings of 6, 16 and
  3 ASCII digits.\<close>

theorem validate_digit_rules:
  "(validate_field now ''zipCode'' (Some v) = None \<longleftrightarrow> length v = 6 \<and> list_all is_digit v) \<and>
   (validate_field now ''cardNumber'' (Some v) = None \<longleftrightarrow> length v = 16 \<and> list_all is_digit v) \<and>
   (validate_field now ''cvv'' (Some v) = None \<longleftrightarrow> length v = 3 \<and> list_all is_digit v)"
  by (simp add: validate_field_zip validate_field_card validate_field_cvv test_digits_def)

text \<open>C15. On a decimal digit string the age rule accepts exactly the values 1 to 120.\<close>

theorem validate_age_range:
  assumes "ds \<noteq> []" and "list_all is_digit ds"
  shows "validate_field now ''age'' (Some ds) = None \<longleftrightarrow> 1 \<le> digits_value ds \<and> digits_value ds \<le> 120"
  using assms by (auto simp: validate_field_age str_to_number_digits not_less)

theorem validate_age_range_witness:
  "validate_field 0 ''age'' (Some ''1'') = None \<and> validate_field 0 ''age'' (Some ''120'') = None \<and>
   validate_field 0 ''age'' (Some ''0'') \<noteq> None \<and> validate_field 0 ''age'' (Some ''121'') \<noteq> None"
  using validate_age_range [of "''1''" 0] validate_age_range [of "''120''" 0]
    validate_age_range [of "''0''" 0] validate_age_range [of "''121''" 0]
  by (simp add: is_digit_def digits_value_def digit_val_def)

text \<open>C16. A parsable expiry date is accepted exactly when it lies strictly after the clock.\<close>

theorem validate_expiry_future:
  assumes "date_parse v = Num (of_int t)"
  shows "validate_field now ''expiryDate'' (Some v) = None \<longleftrightarrow> now < t"
proof -
  have "v \<noteq> []" using assms by auto
  with assms show ?thesis by (auto simp: validate_field_expiry)
qed

theorem validate_expiry_future_witness:
  "date_parse ''2030-01-01'' = Num (of_int 1893456000000) \<and>
   validate_field 1893369600000 ''expiryDate'' (Some ''2030-01-01'') = None \<and>
   validate_field 1893456000000 ''expiryDate'' (Some ''2030-01-01'') \<noteq> None"
proof -
  have p: "date_parse ''2030-01-01'' = Num (of_int 1893456000000)" by code_simp
  have a: "validate_field 1893369600000 ''expiryDate'' (Some ''2030-01-01'') = None"
    using validate_expiry_future [OF p, of 1893369600000] by simp
  have b: "validate_field 1893456000000 ''expiryDate'' (Some ''2030-01-01'') \<noteq> None"
    using validate_expiry_future [OF p, of 1893456000000] by simp
  from p a b show ?thesis by blast
qed

text \<open>C17. Validity only shrinks as the clock advances: a value valid at a later time was
  valid at every earlier time.\<close>

theorem validate_clock_monotone:
  assumes "now \<le> now'" and "validate_field now' k v = None"
  shows "validate_field now k v = None"
proof (cases "k = ''expiryDate''")
  case True
  show ?thesis
  proof (cases v)
    case None
    with assms(2) show ?thesis by (simp add: validate_field_def)
  next
    case (Some s)
    with True assms(2) have "s \<noteq> []" "\<not> js_le (date_parse s) (Num (of_int now'))"
      by (simp_all add: validate_field_expiry)
    with assms(1) have "\<not> js_le (date_parse s) (Num (of_int now))"
      by (cases "date_parse s") (auto simp: js_le_def)
    with True Some \<open>s \<noteq> []\<close> show ?thesis by (simp add: validate_field_expiry)
  qed
next
  case False
  have "validate_field now k v = validate_field now' k v"
    unfolding validate_field_def using False by (cases v) auto
  with assms(2) show ?thesis by simp
qed

theorem validate_clock_monotone_witness:
  "(0::int) \<le> 1 \<and> validate_field 1 ''firstName'' (Some ''Ann'') = None \<and>
   validate_field 0 ''firstName'' (Some ''Ann'') = None"
proof -
  have v: "validate_field 1 ''firstName'' (Some ''Ann'') = None" by (simp add: validate_field_def)
  show ?thesis using validate_clock_monotone [of 0 1 "''firstName''" "Some ''Ann''"] v by simp
qed

text \<open>C18. Every field, whatever its name, is reported as required when its value is
  \<open>undefined\<close> or empty, with the message \<open>"<name> is required."\<close>.\<close>

theorem validate_required_rule:
  assumes "js_falsy v"
  shows "validate_field now k v = Some (k @ '' is required.'')"
  using assms by (auto simp: validate_field_def js_falsy_def split: option.splits)

theorem validate_required_rule_witness:
  "js_falsy None \<and> validate_field 0 ''firstName'' None = Some ''firstName is required.''"
  using validate_required_rule [of None 0 "''firstName''"] by (simp add: js_falsy_def)

text \<open>C19. A field whose name has no rule of its own is only checked for presence: any
  non-empty value is accepted.\<close>

theorem validate_other_keys:
  assumes "k \<notin> set rule_keys"
  shows "validate_field now k v = (if js_falsy v then Some (k @ '' is required.'') else None)"
  using assms by (auto simp: validate_field_def rule_keys_def js_falsy_def split: option.splits)

theorem validate_other_keys_witness:
  "''city'' \<notin> set rule_keys \<and> validate_field 0 ''city'' (Some ''Paris'') = None"
  using validate_other_keys [of "''city''" 0 "Some ''Paris''"] by (simp add: rule_keys_def js_falsy_def)

text \<open>C29. The age and expiry rules accept every non-empty value that is not a number,
  respectively not a date: \<open>value < 1\<close> and \<open>value > 120\<close> are both false for NaN, and
  so is \<open>inputDate <= currentDate\<close> for an invalid date, although the messages and the
  specification ask for a number between 1 and 120 and for a valid future date.\<close>

theorem validate_nan_accepted:
  assumes "v \<noteq> []"
  shows "(str_to_number v = NaN \<longrightarrow> validate_field now ''age'' (Some v) = None) \<and>
         (date_parse v = NaN \<longrightarrow> validate_field now ''expiryDate'' (Some v) = None)"
  using assms by (simp add: validate_field_age validate_field_expiry)

theorem validate_nan_accepted_witness:
  "''abc'' \<noteq> [] \<and> str_to_number ''abc'' = NaN \<and> date_parse ''abc'' = NaN \<and>
   validate_field 0 ''age'' (Some ''abc'') = None \<and> validate_field 0 ''expiryDate'' (Some ''abc'') = None"
proof -
  have n: "str_to_number ''abc'' = NaN" and d: "date_parse ''abc'' = NaN" by code_simp+
  have "''abc'' \<noteq> []" by simp
  then show ?thesis using n d validate_nan_accepted [of "''abc''" 0] by simp
qed

end
