(* ===== verification/FormSession.thy ===== *)
theory FormSession
  imports Validator
begin

text \<open>
  The form session: the state and the event handlers of the component
  \<open>DynamicForm\<close> (\<open>src/src/components/DynamicForm.jsx\<close>). Its five \<open>useState\<close> hooks
  (lines 34--38) are the fields of the record \<open>form_state\<close>; each handler takes the
  state the last render saw and returns the state after its updates. The handlers are
  \<open>handleDropdownChange\<close> (select a form type), \<open>handleChange\<close> (a keystroke in a
  field), \<open>handleSubmit\<close> and the effect that loads the \<open>editData\<close> prop for editing.
  A render with \<open>fields\<close> \<open>undefined\<close> throws (\<open>fields.map\<close>); a handler that
  stores \<open>undefined\<close> there returns that error, \<open>Render_type_error\<close>, instead of a
  state. What \<open>handleSubmit\<close> hands to \<open>onSubmit\<close> and which toast it shows are its
  result, which the application shell (theory \<open>RecordStore\<close>) consumes.
\<close>

datatype js_error = Render_type_error

record form_state =
  form_fields :: "field_descriptor list"
  form_data :: "string js_object"
  errors :: "string option js_object"
  form_type :: string
  progress :: js_number

definition init_form :: form_state where
  "init_form = \<lparr>form_fields = [], form_data = [], errors = [], form_type = [], progress = Num 0\<rparr>"

text \<open>The \<open>editData\<close> prop: \<open>{index, type, data}\<close>, or \<open>null\<close>.\<close>

record edit_ctx =
  edit_index :: nat
  edit_type :: string
  edit_data :: "string js_object"

text \<open>The object \<open>{data, type}\<close> handed to \<open>onSubmit\<close>; the store keeps it as a row.\<close>

record form_record =
  rec_type :: string
  rec_data :: "string js_object"

datatype toast = Toast_error string | Toast_success string | Toast_info string

datatype submit_result = Rejected_empty | Rejected_invalid "string js_object" | Submitted form_record

subsection \<open>Handlers\<close>

definition handle_dropdown_change :: "string \<Rightarrow> form_state \<Rightarrow> js_error + form_state" where
  "handle_dropdown_change selection s =
     (case lookup_schema selection of
       None \<Rightarrow> Inl Render_type_error
     | Some fs \<Rightarrow> Inr (s\<lparr>form_type := selection, form_fields := fs, form_data := [], errors := [],
                         progress := Num 0\<rparr>))"

text \<open>\<open>(filledFields.length / requiredFields.length) * 100\<close>, line 84--86.\<close>

definition progress_of :: "field_descriptor list \<Rightarrow> string js_object \<Rightarrow> js_number" where
  "progress_of fs d =
     (let required = filter frequired fs;
          filled = filter (\<lambda>f. trim_truthy (obj_get d (fname f))) required
      in js_mul (js_div (Num (of_nat (length filled))) (Num (of_nat (length required)))) (Num 100))"

definition handle_change :: "int \<Rightarrow> field_descriptor \<Rightarrow> string \<Rightarrow> form_state \<Rightarrow> form_state" where
  "handle_change now f v s =
     (let updated = obj_set (form_data s) (fname f) v;
          err = validate_field now (fname f) (Some v)
      in s\<lparr>form_data := updated, errors := obj_set (errors s) (fname f) err,
           progress := progress_of (form_fields s) updated\<rparr>)"

text \<open>
  The \<open>forEach\<close> loop of \<open>handleSubmit\<close> (lines 98--102): \<open>if (error)\<close> skips
  \<open>null\<close> and the empty string.
\<close>

fun collect_errors :: "int \<Rightarrow> string js_object \<Rightarrow> field_descriptor list \<Rightarrow> string js_object \<Rightarrow> string js_object" where
  "collect_errors now d [] ve = ve"
| "collect_errors now d (f # fs) ve =
     collect_errors now d fs
       (case validate_field now (fname f) (obj_get d (fname f)) of
          None \<Rightarrow> ve
        | Some e \<Rightarrow> if e = [] then ve else obj_set ve (fname f) e)"

definition is_empty_form :: "field_descriptor list \<Rightarrow> string js_object \<Rightarrow> bool" where
  "is_empty_form fs d \<longleftrightarrow> list_all (\<lambda>f. \<not> trim_truthy (obj_get d (fname f))) fs"

definition handle_submit :: "int \<Rightarrow> bool \<Rightarrow> form_state \<Rightarrow> (toast \<times> submit_result) \<times> form_state" where
  "handle_submit now editing s =
     (if is_empty_form (form_fields s) (form_data s) then
        ((Toast_error ''Cannot submit an empty form. Please fill out the required fields.'',
          Rejected_empty), s)
      else
        (let ve = collect_errors now (form_data s) (form_fields s) [] in
         if 0 < length (obj_keys ve) then
           ((Toast_error ''Please fix validation errors before submitting.'', Rejected_invalid ve),
            s\<lparr>errors := map (\<lambda>(k, e). (k, Some e)) ve\<rparr>)
         else
           ((Toast_success (if editing then ''Changes saved successfully!''
                            else ''Form submitted successfully!''),
             Submitted \<lparr>rec_type = form_type s, rec_data = form_data s\<rparr>),
            s\<lparr>form_data := [], form_fields := [], progress := Num 0\<rparr>)))"

text \<open>
  The effect on \<open>editData\<close> (lines 60--66): with an edit context it sets the type, the
  fields of that type and the data; it leaves \<open>errors\<close> and \<open>progress\<close> alone.
\<close>

definition load_edit :: "edit_ctx option \<Rightarrow> form_state \<Rightarrow> js_error + form_state" where
  "load_edit e s =
     (case e of
       None \<Rightarrow> Inr s
     | Some ed \<Rightarrow>
         (case lookup_schema (edit_type ed) of
           None \<Rightarrow> Inl Render_type_error
         | Some fs \<Rightarrow> Inr (s\<lparr>form_type := edit_type ed, form_fields := fs, form_data := edit_data ed\<rparr>)))"

subsection \<open>Lemmas\<close>

lemma validate_field_msg_nonempty: "validate_field now k v = Some e \<Longrightarrow> e \<noteq> []"
  by (auto simp: validate_field_def split: option.splits if_splits)

lemma collect_errors_get:
  "obj_get (collect_errors now d fs ve) k =
     (if k \<in> fname ` set fs \<and> validate_field now k (obj_get d k) \<noteq> None
      then validate_field now k (obj_get d k) else obj_get ve k)"
proof (induction fs arbitrary: ve)
  case Nil
  then show ?case by simp
next
  case (Cons f fs)
  then show ?case
    by (auto dest: validate_field_msg_nonempty split: option.splits)
qed

lemma collect_errors_keys:
  "set (obj_keys (collect_errors now d fs ve)) =
     set (obj_keys ve) \<union> {fname f | f. f \<in> set fs \<and> validate_field now (fname f) (obj_get d (fname f)) \<noteq> None}"
proof (induction fs arbitrary: ve)
  case Nil
  then show ?case by simp
next
  case (Cons f fs)
  then show ?case
    by (auto dest: validate_field_msg_nonempty split: option.splits)
qed

lemma collect_errors_distinct:
  "distinct (obj_keys ve) \<Longrightarrow> distinct (obj_keys (collect_errors now d fs ve))"
  by (induction fs arbitrary: ve) (auto split: option.splits)

lemma collect_errors_Nil_iff:
  "collect_errors now d fs [] = [] \<longleftrightarrow>
     (\<forall>f\<in>set fs. validate_field now (fname f) (obj_get d (fname f)) = None)"
proof -
  have "collect_errors now d fs [] = [] \<longleftrightarrow> set (obj_keys (collect_errors now d fs [])) = {}"
    by simp
  then show ?thesis by (auto simp: collect_errors_keys)
qed

lemma length_filter_eq_iff: "length (filter P xs) = length xs \<longleftrightarrow> (\<forall>x\<in>set xs. P x)"
  by (metis filter_True length_filter_less less_irrefl)

lemma percent_rat:
  assumes "0 < n" and "k \<le> n"
  shows "0 \<le> (of_nat k / of_nat n * 100 :: rat) \<and> (of_nat k / of_nat n * 100 :: rat) \<le> 100 \<and>
         ((of_nat k / of_nat n * 100 :: rat) = 100 \<longleftrightarrow> k = n)"
proof -
  define q where "q = (of_nat k / of_nat n :: rat)"
  have "0 \<le> q" "q \<le> 1" using assms by (simp_all add: q_def)
  moreover have "q = 1 \<longleftrightarrow> k = n" using assms(1) by (auto simp: q_def)
  ultimately have "0 \<le> q * 100 \<and> q * 100 \<le> 100 \<and> (q * 100 = 100 \<longleftrightarrow> k = n)" by auto
  then show ?thesis by (simp only: q_def)
qed

lemma progress_of_Num:
  assumes "filter frequired fs \<noteq> []"
  obtains k n where "progress_of fs d = Num (of_nat k / of_nat n * 100)" and "0 < n" and "k \<le> n"
    and "k = n \<longleftrightarrow> (\<forall>f\<in>set fs. frequired f \<longrightarrow> trim_truthy (obj_get d (fname f)))"
proof -
  define req where "req = filter frequired fs"
  define k where "k = length (filter (\<lambda>f. trim_truthy (obj_get d (fname f))) req)"
  have "progress_of fs d = Num (of_nat k / of_nat (length req) * 100)"
    using assms unfolding progress_of_def Let_def req_def k_def by simp
  moreover have "0 < length req" using assms by (simp add: req_def)
  moreover have "k \<le> length req" by (simp add: k_def)
  moreover have "k = length req \<longleftrightarrow> (\<forall>f\<in>set fs. frequired f \<longrightarrow> trim_truthy (obj_get d (fname f)))"
    unfolding k_def length_filter_eq_iff by (auto simp: req_def)
  ultimately show ?thesis by (rule that)
qed

lemma progress_of_full:
  assumes "filter frequired fs \<noteq> []"
  shows "progress_of fs d = Num 100 \<longleftrightarrow> (\<forall>f\<in>set fs. frequired f \<longrightarrow> trim_truthy (obj_get d (fname f)))"
proof -
  obtain k n where "progress_of fs d = Num (of_nat k / of_nat n * 100)" "0 < n" "k \<le> n"
    and "k = n \<longleftrightarrow> (\<forall>f\<in>set fs. frequired f \<longrightarrow> trim_truthy (obj_get d (fname f)))"
    using progress_of_Num [OF assms] by blast
  then show ?thesis using percent_rat [of n k] by simp
qed

lemma progress_of_bounds:
  assumes "filter frequired fs \<noteq> []"
  shows "\<exists>p. progress_of fs d = Num p \<and> 0 \<le> p \<and> p \<le> 100"
proof -
  obtain k n where "progress_of fs d = Num (of_nat k / of_nat n * 100)" "0 < n" "k \<le> n"
    using progress_of_Num [OF assms] by blast
  then show ?thesis using percent_rat [of n k] by blast
qed

lemma handle_submit_empty:
  "is_empty_form (form_fields s) (form_data s) \<Longrightarrow>
     handle_submit now ed s =
       ((Toast_error ''Cannot submit an empty form. Please fill out the required fields.'', Rejected_empty), s)"
  by (simp add: handle_submit_def)

lemma handle_submit_invalid:
  assumes "\<not> is_empty_form (form_fields s) (form_data s)"
    and "collect_errors now (form_data s) (form_fields s) [] \<noteq> []"
  shows "handle_submit now ed s =
     ((Toast_error ''Please fix validation errors before submitting.'',
       Rejected_invalid (collect_errors now (form_data s) (form_fields s) [])),
      s\<lparr>errors := map (\<lambda>(k, e). (k, Some e)) (collect_errors now (form_data s) (form_fields s) [])\<rparr>)"
  using assms by (simp add: handle_submit_def obj_keys_def Let_def)

lemma handle_submit_valid:
  assumes "\<not> is_empty_form (form_fields s) (form_data s)"
    and "\<forall>f\<in>set (form_fields s). validate_field now (fname f) (obj_get (form_data s) (fname f)) = None"
  shows "handle_submit now ed s =
     ((Toast_success (if ed then ''Changes saved successfully!'' else ''Form submitted successfully!''),
       Submitted \<lparr>rec_type = form_type s, rec_data = form_data s\<rparr>),
      s\<lparr>form_data := [], form_fields := [], progress := Num 0\<rparr>)"
proof -
  have "collect_errors now (form_data s) (form_fields s) [] = []"
    using assms(2) collect_errors_Nil_iff by blast
  with assms(1) show ?thesis by (simp add: handle_submit_def)
qed

lemma handle_submit_cases:
  "snd (fst (handle_submit now ed s)) = Rejected_empty \<and> snd (handle_submit now ed s) = s \<or>
   (\<exists>ve. snd (fst (handle_submit now ed s)) = Rejected_invalid ve \<and> ve \<noteq> []) \<or>
   (snd (fst (handle_submit now ed s)) = Submitted \<lparr>rec_type = form_type s, rec_data = form_data s\<rparr> \<and>
    \<not> is_empty_form (form_fields s) (form_data s) \<and>
    (\<forall>f\<in>set (form_fields s). validate_field now (fname f) (obj_get (form_data s) (fname f)) = None))"
  by (auto simp: handle_submit_def Let_def obj_keys_def collect_errors_Nil_iff [symmetric])

lemma load_edit_keeps:
  "load_edit e s = Inr s' \<Longrightarrow> progress s' = progress s \<and> errors s' = errors s"
  by (auto simp: load_edit_def split: option.splits)
lemma obj_get_map_Some: "obj_get (map (\<lambda>(k, e). (k, Some e)) ve) k = map_option Some (obj_get ve k)"
  by (induction ve) (auto simp: obj_get_def)

subsection \<open>Properties\<close>

text \<open>C7. Submitting a non-empty form with a field whose value fails its rule is refused;
  the refusal carries that field's message, the message is shown inline, and the data are
  kept. This holds for every rendered field, required or not: the required flag is never
  consulted.\<close>

theorem submit_reports_invalid_field:
  assumes "f \<in> set (form_fields s)" and "\<not> is_empty_form (form_fields s) (form_data s)"
    and "validate_field now (fname f) (obj_get (form_data s) (fname f)) = Some e"
  shows "\<exists>ve. handle_submit now ed s =
           ((Toast_error ''Please fix validation errors before submitting.'', Rejected_invalid ve),
            s\<lparr>errors := map (\<lambda>(k, e). (k, Some e)) ve\<rparr>) \<and>
           obj_get ve (fname f) = Some e \<and>
           obj_get (errors (snd (handle_submit now ed s))) (fname f) = Some (Some e)"
proof -
  let ?ve = "collect_errors now (form_data s) (form_fields s) []"
  have get: "obj_get ?ve (fname f) = Some e"
    using assms(1,3) by (simp add: collect_errors_get)
  then have ne: "?ve \<noteq> []" by (auto simp: obj_get_def)
  have hs: "handle_submit now ed s =
      ((Toast_error ''Please fix validation errors before submitting.'', Rejected_invalid ?ve),
       s\<lparr>errors := map (\<lambda>(k, e). (k, Some e)) ?ve\<rparr>)"
    using assms(2) ne by (rule handle_submit_invalid)
  show ?thesis using hs get by (simp add: obj_get_map_Some)
qed

theorem submit_reports_invalid_field_witness:
  "let s = init_form\<lparr>form_fields := the (lookup_schema ''userInfo''), form_data := [(''firstName'', ''Ann'')],
                     form_type := ''userInfo''\<rparr>
   in field ''lastName'' Text ''Last Name'' \<in> set (form_fields s) \<and>
      \<not> is_empty_form (form_fields s) (form_data s) \<and>
      validate_field 0 ''lastName'' (obj_get (form_data s) ''lastName'') = Some ''lastName is required.'' \<and>
      obj_get (errors (snd (handle_submit 0 False s))) ''lastName'' = Some (Some ''lastName is required.'')"
proof -
  define s where "s = init_form\<lparr>form_fields := the (lookup_schema ''userInfo''),
                     form_data := [(''firstName'', ''Ann'')], form_type := ''userInfo''\<rparr>"
  have a: "field ''lastName'' Text ''Last Name'' \<in> set (form_fields s)"
    by (simp add: s_def init_form_def catalog_defs obj_get_def)
  have b: "\<not> is_empty_form (form_fields s) (form_data s)"
    by (simp add: s_def init_form_def catalog_defs obj_get_def is_empty_form_def trim_truthy_def
        js_trim_def js_space_def)
  have c: "validate_field 0 (fname (field ''lastName'' Text ''Last Name''))
             (obj_get (form_data s) (fname (field ''lastName'' Text ''Last Name''))) = Some ''lastName is required.''"
    by (simp add: s_def init_form_def field_def obj_get_def validate_field_def)
  from submit_reports_invalid_field [OF a b c, of False] a b c show ?thesis
    by (auto simp: s_def [symmetric] Let_def field_def)
qed

text \<open>C20. With at least one required field, the progress is exactly 100 when every
  required field has a non-blank value, and a number below 100 as soon as one of them is
  blank.\<close>

theorem progress_full_iff:
  assumes "filter frequired fs \<noteq> []"
  shows "(progress_of fs d = Num 100 \<longleftrightarrow> (\<forall>f\<in>set fs. frequired f \<longrightarrow> trim_truthy (obj_get d (fname f)))) \<and>
         ((\<exists>f\<in>set fs. frequired f \<and> \<not> trim_truthy (obj_get d (fname f))) \<longrightarrow>
            (\<exists>p. progress_of fs d = Num p \<and> p < 100))"
  using progress_of_full [OF assms] progress_of_bounds [OF assms] by fastforce

theorem progress_full_iff_witness:
  "filter frequired (the (lookup_schema ''userInfo'')) \<noteq> [] \<and>
   progress_of (the (lookup_schema ''userInfo'')) [(''firstName'', ''Ann''), (''lastName'', ''Lee''), (''age'', ''30'')] = Num 100"
proof -
  have r: "filter frequired (the (lookup_schema ''userInfo'')) \<noteq> []"
    by (simp add: catalog_defs obj_get_def)
  have "\<forall>f\<in>set (the (lookup_schema ''userInfo'')). frequired f \<longrightarrow>
          trim_truthy (obj_get [(''firstName'', ''Ann''), (''lastName'', ''Lee''), (''age'', ''30'')] (fname f))"
    by (simp add: catalog_defs obj_get_def trim_truthy_def js_trim_def js_space_def)
  then show ?thesis using r progress_full_iff [OF r] by blast
qed

text \<open>C25. A schema without required fields makes the progress NaN: the source divides
  0 by 0 and does not guard the case.\<close>

theorem progress_nan_without_required:
  assumes "filter frequired fs = []"
  shows "progress_of fs d = NaN"
  using assms by (simp add: progress_of_def Let_def)

theorem progress_nan_without_required_witness:
  "filter frequired [field ''note'' Text ''Note'' \<lparr>frequired := False\<rparr>] = [] \<and>
   progress_of [field ''note'' Text ''Note'' \<lparr>frequired := False\<rparr>] [] = NaN"
  using progress_nan_without_required [of "[field ''note'' Text ''Note'' \<lparr>frequired := False\<rparr>]" "[]"]
  by (simp add: field_def)

text \<open>C26. The error object built by \<open>handleSubmit\<close> has an entry exactly for the
  rendered fields that fail their rule, holding that rule's message.\<close>

theorem collect_errors_exact:
  "obj_get (collect_errors now d fs []) k =
     (if k \<in> fname ` set fs then validate_field now k (obj_get d k) else None)"
  using collect_errors_get [of now d fs "[]" k] by (auto simp: obj_get_def)

end
