(* ===== verification/RecordStore.thy ===== *)
theory RecordStore
  imports FormSession
begin

text \<open>
  The record store and edit context of the application shell, \<open>App\<close>
  (\<open>src/src/App.jsx\<close>): the state \<open>submittedData\<close> (the rows, addressed by their
  position) and \<open>editData\<close> (the row being edited, or \<open>null\<close>), and the callbacks
  \<open>handleFormSubmit\<close>, \<open>handleEdit\<close> and \<open>handleDelete\<close>, with the click handlers of
  \<open>DataTable\<close> (\<open>src/src/components/DataTable.jsx\<close>) that call them. Rows are
  replaced by \<open>map\<close> over the indices and removed by \<open>filter\<close> over them, so an
  index out of range changes nothing. \<open>handleEdit\<close> with an index out of range stores
  \<open>{index}\<close> only; the form's effect then looks up the schema of an \<open>undefined\<close> type
  and its next render throws, which the model returns as \<open>Render_type_error\<close>.
\<close>

record app_state =
  submitted_data :: "form_record list"
  app_edit :: "edit_ctx option"

definition init_app :: app_state where
  "init_app = \<lparr>submitted_data = [], app_edit = None\<rparr>"

text \<open>\<open>prevData.map((entry, index) => index === i ? r : entry)\<close>\<close>

definition replace_at :: "nat \<Rightarrow> 'a \<Rightarrow> 'a list \<Rightarrow> 'a list" where
  "replace_at i r xs = map (\<lambda>(j, e). if j = i then r else e) (enumerate 0 xs)"

text \<open>\<open>prevData.filter((_, j) => j !== i)\<close>\<close>

definition remove_at :: "nat \<Rightarrow> 'a list \<Rightarrow> 'a list" where
  "remove_at i xs = map snd (filter (\<lambda>(j, _). j \<noteq> i) (enumerate 0 xs))"

definition handle_form_submit :: "form_record \<Rightarrow> app_state \<Rightarrow> app_state" where
  "handle_form_submit r a =
     (case app_edit a of
       Some e \<Rightarrow> a\<lparr>submitted_data := replace_at (edit_index e) r (submitted_data a), app_edit := None\<rparr>
     | None \<Rightarrow> a\<lparr>submitted_data := submitted_data a @ [r]\<rparr>)"

definition handle_edit :: "nat \<Rightarrow> app_state \<Rightarrow> js_error + app_state" where
  "handle_edit i a =
     (if i < length (submitted_data a) then
        (let r = submitted_data a ! i in
         Inr (a\<lparr>app_edit := Some \<lparr>edit_index = i, edit_type = rec_type r, edit_data = rec_data r\<rparr>\<rparr>))
      else Inl Render_type_error)"

definition handle_delete :: "nat \<Rightarrow> app_state \<Rightarrow> app_state" where
  "handle_delete i a = a\<lparr>submitted_data := remove_at i (submitted_data a)\<rparr>"

text \<open>\<open>DataTable\<close>: the edit click shows a toast and calls \<open>onEdit\<close>; the delete click
  asks \<open>window.confirm\<close> (the answer is the parameter) and deletes only on yes.\<close>

definition handle_edit_click :: "nat \<Rightarrow> app_state \<Rightarrow> js_error + (toast option \<times> app_state)" where
  "handle_edit_click i a =
     map_sum id (\<lambda>a'. (Some (Toast_info ''You are editing a form.''), a')) (handle_edit i a)"

definition handle_delete_click :: "bool \<Rightarrow> nat \<Rightarrow> app_state \<Rightarrow> toast option \<times> app_state" where
  "handle_delete_click confirmed i a =
     (if confirmed then (Some (Toast_success ''Form deleted successfully.''), handle_delete i a)
      else (None, a))"

subsection \<open>The index-based updates against list operations\<close>

lemma enumerate_nth: "k < length xs \<Longrightarrow> enumerate n xs ! k = (n + k, xs ! k)"
  by (simp add: nth_enumerate_eq)

lemma replace_at_list_update: "replace_at i r xs = xs[i := r]"
proof (rule nth_equalityI)
  show "length (replace_at i r xs) = length (xs[i := r])"
    by (simp add: replace_at_def)
next
  fix k assume "k < length (replace_at i r xs)"
  then have "k < length xs" by (simp add: replace_at_def)
  then show "replace_at i r xs ! k = xs[i := r] ! k"
    by (simp add: replace_at_def enumerate_nth nth_list_update)
qed

lemma filter_enumerate_remove:
  "map snd (filter (\<lambda>(j, _). j \<noteq> n + i) (enumerate n xs)) =
     (if i < length xs then take i xs @ drop (Suc i) xs else xs)"
proof (induction xs arbitrary: n i)
  case Nil
  then show ?case by simp
next
  case (Cons x xs)
  show ?case
  proof (cases i)
    case 0
    have "filter (\<lambda>(j, _). j \<noteq> n) (enumerate (Suc n) xs) = enumerate (Suc n) xs"
      by (auto simp: filter_id_conv in_set_enumerate_eq)
    with 0 show ?thesis by (simp add: map_snd_enumerate)
  next
    case (Suc k)
    with Cons.IH [of "Suc n" k] show ?thesis by simp
  qed
qed

lemma remove_at_take_drop:
  "remove_at i xs = (if i < length xs then take i xs @ drop (Suc i) xs else xs)"
  using filter_enumerate_remove [of 0 i xs] by (simp add: remove_at_def)

text \<open>After deleting an index \<open>j\<close>, index \<open>i \<ge> j\<close> addresses the row that was at
  \<open>i + 1\<close>.\<close>

lemma remove_at_update_shift:
  assumes "j < i" and "Suc i < length xs"
  shows "(remove_at j xs)[i := r] = remove_at j (xs[Suc i := r])"
  using assms by (auto simp: remove_at_take_drop nth_append intro!: nth_equalityI simp: nth_list_update min_def)

lemma form_record_eta: "\<lparr>rec_type = rec_type r, rec_data = rec_data r\<rparr> = r"
  by (cases r) simp

lemma list_all_remove_at: "list_all P xs \<Longrightarrow> list_all P (remove_at i xs)"
  by (auto simp: remove_at_take_drop list_all_iff dest: in_set_takeD in_set_dropD)

subsection \<open>Properties\<close>

text \<open>C30. The index-based updates of the store are the list operations: replacing by
  \<open>map\<close> over the indices replaces the row at an index in range and keeps the others
  in place (out of range nothing changes); deleting by \<open>filter\<close> over the indices at an
  index in range shortens the store by one and shifts every later row down by one
  place: indices are positions, not identities.\<close>

theorem store_index_ops:
  "replace_at i r xs = (if i < length xs then take i xs @ r # drop (Suc i) xs else xs) \<and>
   (i < length xs \<longrightarrow>
      length (remove_at i xs) = length xs - 1 \<and>
      (\<forall>j < length xs - 1. remove_at i xs ! j = xs ! (if j < i then j else Suc j)))"
  by (auto simp: replace_at_list_update upd_conv_take_nth_drop list_update_beyond not_less
      remove_at_take_drop nth_append min_def)

theorem store_index_ops_witness:
  "(1::nat) < length [''a'', ''b'', ''c''] \<and> remove_at 1 [''a'', ''b'', ''c''] ! 1 = ''c'' \<and>
   replace_at 1 ''x'' [''a'', ''b'', ''c''] = [''a'', ''x'', ''c'']"
  using store_index_ops [of 1 "''x''" "[''a'', ''b'', ''c'']"] by simp

text \<open>C32. An index out of range is no error: deleting or replacing there leaves the rows
  unchanged, where the specification asks for \<open>IndexOutOfRange\<close>.\<close>

theorem store_index_out_of_range:
  assumes "length xs \<le> i"
  shows "remove_at i xs = xs \<and> replace_at i r xs = xs"
  using assms by (simp add: remove_at_take_drop replace_at_list_update list_update_beyond)

theorem store_index_out_of_range_witness:
  "length ([] :: form_record list) \<le> 0 \<and> remove_at 0 ([] :: form_record list) = []"
  using store_index_out_of_range [of "[] :: form_record list" 0] by simp

end
