(* ===== verification/Ui.thy ===== *)
theory Ui
  imports RecordStore
begin

text \<open>
  The composed application: the state of \<open>App\<close> and of its child \<open>DynamicForm\<close>, and
  one step per user event, wired as \<open>src/src/App.jsx\<close> wires the components (lines
  44--47): the form's \<open>onSubmit\<close> is \<open>handleFormSubmit\<close>, its \<open>editData\<close> prop is the
  shell's \<open>editData\<close>, and the table's \<open>onEdit\<close>/\<open>onDelete\<close> are \<open>handleEdit\<close> and
  \<open>handleDelete\<close>. Every event runs to completion before the next (React handles
  discrete events one at a time and flushes the effects of the previous render first).
  After a click on Edit the form's effect runs, because \<open>handleEdit\<close> always stores a
  new object; after a submit in edit mode it runs with \<open>null\<close> and changes nothing.

  \<open>ui_enabled\<close> says which events the rendered page offers: a form type from the menu
  (the keys of \<open>apiResponses\<close>), input in a rendered field (a select offers \<open>""\<close> and
  its options; other inputs are left unconstrained, which over-approximates what the
  browser's number and date inputs let through), the submit button, and the Edit and
  Delete buttons of an existing row. \<open>reachable\<close> is the set of states reachable
  from the initial page by enabled events, at any clock value.
\<close>

record ui_state =
  app :: app_state
  form :: form_state

definition init_ui :: ui_state where
  "init_ui = \<lparr>app = init_app, form = init_form\<rparr>"

datatype ui_event =
    Select_type string
  | Type_in field_descriptor string
  | Submit
  | Edit_click nat
  | Delete_click bool nat

definition ui_step :: "int \<Rightarrow> ui_event \<Rightarrow> ui_state \<Rightarrow> js_error + (toast option \<times> ui_state)" where
  "ui_step now ev s =
     (case ev of
       Select_type k \<Rightarrow> map_sum id (\<lambda>f. (None, s\<lparr>form := f\<rparr>)) (handle_dropdown_change k (form s))
     | Type_in f v \<Rightarrow> Inr (None, s\<lparr>form := handle_change now f v (form s)\<rparr>)
     | Submit \<Rightarrow>
         (let ((t, res), f') = handle_submit now (app_edit (app s) \<noteq> None) (form s);
              a' = (case res of Submitted r \<Rightarrow> handle_form_submit r (app s) | _ \<Rightarrow> app s)
          in Inr (Some t, \<lparr>app = a', form = f'\<rparr>))
     | Edit_click i \<Rightarrow>
         (case handle_edit_click i (app s) of
           Inl e \<Rightarrow> Inl e
         | Inr (t, a') \<Rightarrow> map_sum id (\<lambda>f'. (t, \<lparr>app = a', form = f'\<rparr>)) (load_edit (app_edit a') (form s)))
     | Delete_click c i \<Rightarrow> (let (t, a') = handle_delete_click c i (app s) in Inr (t, s\<lparr>app := a'\<rparr>)))"

definition select_values :: "field_descriptor \<Rightarrow> string list" where
  "select_values f = [] # (case foptions f of None \<Rightarrow> [] | Some os \<Rightarrow> os)"

definition ui_enabled :: "ui_state \<Rightarrow> ui_event \<Rightarrow> bool" where
  "ui_enabled s ev \<longleftrightarrow>
     (case ev of
       Select_type k \<Rightarrow> k \<in> set form_types
     | Type_in f v \<Rightarrow> f \<in> set (form_fields (form s)) \<and> (ftype f = Dropdown \<longrightarrow> v \<in> set (select_values f))
     | Submit \<Rightarrow> True
     | Edit_click i \<Rightarrow> i < length (submitted_data (app s))
     | Delete_click c i \<Rightarrow> i < length (submitted_data (app s)))"

inductive reachable :: "ui_state \<Rightarrow> bool" where
  init: "reachable init_ui"
| step: "reachable s \<Longrightarrow> ui_enabled s ev \<Longrightarrow> ui_step now ev s = Inr (t, s') \<Longrightarrow> reachable s'"

text \<open>Runs of events at one clock value, and the check that each event was offered.\<close>

fun ui_run :: "int \<Rightarrow> ui_event list \<Rightarrow> ui_state \<Rightarrow> js_error + ui_state" where
  "ui_run now [] s = Inr s"
| "ui_run now (e # es) s = (case ui_step now e s of Inl err \<Rightarrow> Inl err | Inr (t, s') \<Rightarrow> ui_run now es s')"

fun run_enabled :: "int \<Rightarrow> ui_event list \<Rightarrow> ui_state \<Rightarrow> bool" where
  "run_enabled now [] s = True"
| "run_enabled now (e # es) s =
     (ui_enabled s e \<and> (case ui_step now e s of Inl err \<Rightarrow> False | Inr (t, s') \<Rightarrow> run_enabled now es s'))"

subsection \<open>Well-formed states\<close>

text \<open>
  A stored row has a registered type, its keys are exactly the field names of that type,
  without repetition, and no value is empty. The form holds data only for its rendered
  fields, and rendered fields are the schema of the selected type. An edit context is a
  copy of a well-formed row.
\<close>

definition record_ok :: "form_record \<Rightarrow> bool" where
  "record_ok r \<longleftrightarrow>
     (case lookup_schema (rec_type r) of
       None \<Rightarrow> False
     | Some fs \<Rightarrow> distinct (obj_keys (rec_data r)) \<and> set (obj_keys (rec_data r)) = set (field_names fs) \<and>
                  list_all (\<lambda>(k, v). v \<noteq> []) (rec_data r))"

definition form_ok :: "form_state \<Rightarrow> bool" where
  "form_ok f \<longleftrightarrow>
     distinct (obj_keys (form_data f)) \<and> set (obj_keys (form_data f)) \<subseteq> set (field_names (form_fields f)) \<and>
     (form_fields f = [] \<or> lookup_schema (form_type f) = Some (form_fields f))"

definition edit_ok :: "edit_ctx option \<Rightarrow> bool" where
  "edit_ok e \<longleftrightarrow> (case e of None \<Rightarrow> True | Some ed \<Rightarrow> record_ok \<lparr>rec_type = edit_type ed, rec_data = edit_data ed\<rparr>)"

definition ui_inv :: "ui_state \<Rightarrow> bool" where
  "ui_inv s \<longleftrightarrow> list_all record_ok (submitted_data (app s)) \<and> form_ok (form s) \<and> edit_ok (app_edit (app s))"

subsection \<open>The invariant\<close>

lemma is_empty_form_Nil [simp]: "is_empty_form [] d"
  by (simp add: is_empty_form_def)

lemma valid_field_present:
  "validate_field now k (obj_get d k) = None \<Longrightarrow> \<exists>v. obj_get d k = Some v \<and> v \<noteq> []"
proof -
  assume "validate_field now k (obj_get d k) = None"
  then have "\<not> js_falsy (obj_get d k)" by (rule validate_field_valid_nonempty)
  then show ?thesis by (cases "obj_get d k") (auto simp: js_falsy_def)
qed

lemma obj_get_member: "distinct (obj_keys d) \<Longrightarrow> (k, v) \<in> set d \<Longrightarrow> obj_get d k = Some v"
  by (simp add: obj_get_def obj_keys_def)

lemma submitted_record_ok:
  assumes ok: "form_ok f" and ne: "\<not> is_empty_form (form_fields f) (form_data f)"
    and valid: "\<forall>g\<in>set (form_fields f). validate_field now (fname g) (obj_get (form_data f) (fname g)) = None"
  shows "record_ok \<lparr>rec_type = form_type f, rec_data = form_data f\<rparr>"
proof -
  let ?d = "form_data f" and ?fs = "form_fields f"
  have fs: "lookup_schema (form_type f) = Some ?fs"
    using ok ne by (cases "?fs = []") (auto simp: form_ok_def)
  have sub: "set (obj_keys ?d) \<subseteq> set (field_names ?fs)" and dist: "distinct (obj_keys ?d)"
    using ok by (simp_all add: form_ok_def)
  have sup: "set (field_names ?fs) \<subseteq> set (obj_keys ?d)"
  proof
    fix k assume "k \<in> set (field_names ?fs)"
    then obtain g where "g \<in> set ?fs" "fname g = k" by (auto simp: field_names_def)
    with valid have "validate_field now k (obj_get ?d k) = None" by auto
    then obtain v where "obj_get ?d k = Some v" using valid_field_present by blast
    then show "k \<in> set (obj_keys ?d)" using obj_get_None_iff by force
  qed
  have "v \<noteq> []" if "(k, v) \<in> set ?d" for k v
  proof -
    have "k \<in> set (field_names ?fs)" using that sub by (force simp: obj_keys_def)
    then obtain g where "g \<in> set ?fs" "fname g = k" by (auto simp: field_names_def)
    with valid valid_field_present obtain v' where "obj_get ?d k = Some v'" "v' \<noteq> []" by blast
    with obj_get_member [OF dist that] show ?thesis by simp
  qed
  with fs sub sup dist show ?thesis
    by (auto simp: record_ok_def list_all_iff)
qed

lemma form_submit_record_ok:
  assumes "list_all record_ok (submitted_data a)" and "edit_ok (app_edit a)" and "record_ok r"
  shows "list_all record_ok (submitted_data (handle_form_submit r a)) \<and> edit_ok (app_edit (handle_form_submit r a))"
  using assms by (auto simp: handle_form_submit_def replace_at_list_update list_all_list_update edit_ok_def
      split: option.splits)

lemma inv_select:
  "ui_inv s \<Longrightarrow> ui_step now (Select_type k) s = Inr (t, s') \<Longrightarrow> ui_inv s'"
  by (auto simp: ui_step_def ui_inv_def form_ok_def handle_dropdown_change_def split: option.splits)

lemma inv_type:
  "ui_inv s \<Longrightarrow> f \<in> set (form_fields (form s)) \<Longrightarrow> ui_inv (s\<lparr>form := handle_change now f v (form s)\<rparr>)"
  by (auto simp: ui_inv_def form_ok_def handle_change_def Let_def field_names_def)

lemma ui_step_submit_cases:
  assumes "ui_step now Submit s = Inr (t, s')"
  shows "(app s' = app s \<and> form_fields (form s') = form_fields (form s) \<and> form_data (form s') = form_data (form s) \<and>
          form_type (form s') = form_type (form s)) \<or>
         (\<not> is_empty_form (form_fields (form s)) (form_data (form s)) \<and>
          (\<forall>g\<in>set (form_fields (form s)). validate_field now (fname g) (obj_get (form_data (form s)) (fname g)) = None) \<and>
          app s' = handle_form_submit \<lparr>rec_type = form_type (form s), rec_data = form_data (form s)\<rparr> (app s) \<and>
          form s' = (form s)\<lparr>form_data := [], form_fields := [], progress := Num 0\<rparr>)"
proof -
  obtain tr res f' where hs: "handle_submit now (app_edit (app s) \<noteq> None) (form s) = ((tr, res), f')"
    by (metis prod.exhaust)
  have s': "s' = \<lparr>app = (case res of Submitted r \<Rightarrow> handle_form_submit r (app s) | _ \<Rightarrow> app s), form = f'\<rparr>"
    using assms hs by (simp add: ui_step_def)
  consider "res = Rejected_empty" "f' = form s" | ve where "res = Rejected_invalid ve"
    | "res = Submitted \<lparr>rec_type = form_type (form s), rec_data = form_data (form s)\<rparr>"
      "\<not> is_empty_form (form_fields (form s)) (form_data (form s))"
      "\<forall>g\<in>set (form_fields (form s)). validate_field now (fname g) (obj_get (form_data (form s)) (fname g)) = None"
    using handle_submit_cases [of now "app_edit (app s) \<noteq> None" "form s"] hs by auto
  then show ?thesis
  proof cases
    case 1
    then show ?thesis using s' by simp
  next
    case (2 ve)
    then have "f' = (form s)\<lparr>errors := map (\<lambda>(k, e). (k, Some e)) ve\<rparr>"
      using hs by (auto simp: handle_submit_def Let_def split: if_splits)
    then show ?thesis using s' 2 by simp
  next
    case 3
    then have "f' = (form s)\<lparr>form_data := [], form_fields := [], progress := Num 0\<rparr>"
      using hs handle_submit_valid [of "form s" now] by simp
    then show ?thesis using s' 3 by simp
  qed
qed

lemma inv_submit:
  assumes "ui_inv s" and "ui_step now Submit s = Inr (t, s')"
  shows "ui_inv s'"
  using ui_step_submit_cases [OF assms(2)]
proof
  assume "app s' = app s \<and> form_fields (form s') = form_fields (form s) \<and> form_data (form s') = form_data (form s) \<and>
          form_type (form s') = form_type (form s)"
  then show ?thesis using assms(1) by (simp add: ui_inv_def form_ok_def)
next
  let ?r = "\<lparr>rec_type = form_type (form s), rec_data = form_data (form s)\<rparr>"
  assume a: "\<not> is_empty_form (form_fields (form s)) (form_data (form s)) \<and>
    (\<forall>g\<in>set (form_fields (form s)). validate_field now (fname g) (obj_get (form_data (form s)) (fname g)) = None) \<and>
    app s' = handle_form_submit ?r (app s) \<and> form s' = (form s)\<lparr>form_data := [], form_fields := [], progress := Num 0\<rparr>"
  have "record_ok ?r"
    using a assms(1) by (intro submitted_record_ok [of "form s" now]) (simp_all add: ui_inv_def)
  then show ?thesis using a assms(1) form_submit_record_ok [of "app s"] by (simp add: ui_inv_def form_ok_def)
qed

lemma inv_edit:
  assumes "ui_inv s" and "ui_step now (Edit_click i) s = Inr (t, s')"
  shows "ui_inv s'"
proof -
  from assms(2) have i: "i < length (submitted_data (app s))"
    by (auto simp: ui_step_def handle_edit_click_def handle_edit_def split: sum.splits if_splits)
  let ?r = "submitted_data (app s) ! i"
  have r: "record_ok ?r" using assms(1) i by (simp add: ui_inv_def list_all_length)
  then obtain fs where fs: "lookup_schema (rec_type ?r) = Some fs"
    by (auto simp: record_ok_def split: option.splits)
  from assms(2) i fs have s': "s' = \<lparr>app = (app s)\<lparr>app_edit := Some \<lparr>edit_index = i, edit_type = rec_type ?r, edit_data = rec_data ?r\<rparr>\<rparr>,
      form = (form s)\<lparr>form_type := rec_type ?r, form_fields := fs, form_data := rec_data ?r\<rparr>\<rparr>"
    by (auto simp: ui_step_def handle_edit_click_def handle_edit_def load_edit_def Let_def)
  show ?thesis using assms(1) r fs s' by (simp add: ui_inv_def form_ok_def edit_ok_def record_ok_def)
qed

lemma inv_delete:
  "ui_inv s \<Longrightarrow> ui_step now (Delete_click c i) s = Inr (t, s') \<Longrightarrow> ui_inv s'"
  by (auto simp: ui_step_def handle_delete_click_def handle_delete_def ui_inv_def list_all_remove_at
      split: if_splits)

lemma ui_step_inv:
  assumes "ui_inv s" and "ui_enabled s ev" and "ui_step now ev s = Inr (t, s')"
  shows "ui_inv s'"
proof (cases ev)
  case (Select_type k)
  with assms show ?thesis by (auto intro: inv_select)
next
  case (Type_in f v)
  with assms show ?thesis by (auto simp: ui_step_def ui_enabled_def intro: inv_type)
next
  case Submit
  with assms show ?thesis by (auto intro: inv_submit)
next
  case (Edit_click i)
  with assms show ?thesis by (auto intro: inv_edit)
next
  case (Delete_click c i)
  with assms show ?thesis by (auto intro: inv_delete)
qed

lemma init_ui_inv: "ui_inv init_ui"
  by (simp add: ui_inv_def init_ui_def init_app_def init_form_def form_ok_def edit_ok_def)

lemma reachable_inv: "reachable s \<Longrightarrow> ui_inv s"
  by (induction rule: reachable.induct) (auto intro: init_ui_inv ui_step_inv)

lemma ui_step_total:
  assumes "ui_inv s" and "ui_enabled s ev"
  shows "\<exists>r. ui_step now ev s = Inr r"
proof (cases ev)
  case (Select_type k)
  with assms(2) obtain fs where "lookup_schema k = Some fs"
    using lookup_schema_Some_iff by (auto simp: ui_enabled_def)
  with Select_type show ?thesis by (simp add: ui_step_def handle_dropdown_change_def)
next
  case (Edit_click i)
  with assms(2) have i: "i < length (submitted_data (app s))" by (simp add: ui_enabled_def)
  let ?r = "submitted_data (app s) ! i"
  have "record_ok ?r" using assms(1) i by (simp add: ui_inv_def list_all_length)
  then obtain fs where "lookup_schema (rec_type ?r) = Some fs"
    by (auto simp: record_ok_def split: option.splits)
  with Edit_click i show ?thesis
    by (simp add: ui_step_def handle_edit_click_def handle_edit_def load_edit_def Let_def)
qed (auto simp: ui_step_def split: prod.splits)

subsection \<open>Runs, stored rows and progress\<close>

lemma run_enabled_reachable:
  "reachable s \<Longrightarrow> run_enabled now es s \<Longrightarrow> ui_run now es s = Inr s' \<Longrightarrow> reachable s'"
proof (induction es arbitrary: s)
  case Nil
  then show ?case by simp
next
  case (Cons e es)
  from Cons.prems(2) obtain t s1 where en: "ui_enabled s e" and st: "ui_step now e s = Inr (t, s1)"
    and rest: "run_enabled now es s1"
    by (auto split: sum.splits)
  from Cons.prems(1) en st have "reachable s1" by (rule reachable.step)
  moreover from Cons.prems(3) st have "ui_run now es s1 = Inr s'" by simp
  ultimately show ?case using rest Cons.IH by blast
qed

lemma digits_trim_truthy: "v \<noteq> [] \<Longrightarrow> list_all is_digit v \<Longrightarrow> trim_truthy (Some v)"
  by (cases v) (auto simp: trim_truthy_Some is_digit_not_space)

lemma age_valid_trim_truthy:
  assumes "validate_field now ''age'' (Some v) = None"
  shows "trim_truthy (Some v)"
proof (rule ccontr)
  assume "\<not> trim_truthy (Some v)"
  then have "js_trim v = []" by (simp add: trim_truthy_def)
  then have "str_to_number v = Num 0" by (simp add: str_to_number_def)
  with assms show False by (simp add: validate_field_age)
qed

lemma key_valid_trim_truthy:
  assumes "k \<in> {''age'', ''zipCode'', ''cardNumber''}" and "validate_field now k v = None"
  shows "trim_truthy v"
proof -
  obtain s where v: "v = Some s" and "s \<noteq> []"
    using validate_field_valid_nonempty [OF assms(2)] by (cases v) (auto simp: js_falsy_def)
  then show ?thesis using assms
    by (auto simp: age_valid_trim_truthy validate_field_zip validate_field_card test_digits_def
        intro: digits_trim_truthy)
qed

lemma not_empty_by_field: "f \<in> set fs \<Longrightarrow> trim_truthy (obj_get d (fname f)) \<Longrightarrow> \<not> is_empty_form fs d"
  by (auto simp: is_empty_form_def list_all_iff)

lemma valid_record_not_empty:
  assumes "lookup_schema t = Some fs"
    and "\<forall>f\<in>set fs. validate_field now (fname f) (obj_get d (fname f)) = None"
  shows "\<not> is_empty_form fs d"
proof -
  have "\<exists>f\<in>set fs. fname f \<in> {''age'', ''zipCode'', ''cardNumber''}"
    using lookup_schema_cases [OF assms(1)] by (auto simp: catalog_defs obj_get_def)
  then obtain f where "f \<in> set fs" "fname f \<in> {''age'', ''zipCode'', ''cardNumber''}" by blast
  with assms(2) key_valid_trim_truthy have "trim_truthy (obj_get d (fname f))" by blast
  with \<open>f \<in> set fs\<close> show ?thesis by (rule not_empty_by_field)
qed

lemma handle_submit_progress:
  "progress (snd (handle_submit now ed s)) \<in> {progress s, Num 0}"
  unfolding handle_submit_def Let_def by simp

lemma step_progress_ok:
  assumes inv: "ui_inv s" and ok: "\<exists>p. progress (form s) = Num p \<and> 0 \<le> p \<and> p \<le> 100"
    and en: "ui_enabled s ev" and st: "ui_step now ev s = Inr (t, s')"
  shows "\<exists>p. progress (form s') = Num p \<and> 0 \<le> p \<and> p \<le> 100"
proof (cases ev)
  case (Select_type k)
  with st show ?thesis
    by (auto simp: ui_step_def handle_dropdown_change_def split: option.splits)
next
  case (Type_in f v)
  with en have f: "f \<in> set (form_fields (form s))" by (simp add: ui_enabled_def)
  then have "lookup_schema (form_type (form s)) = Some (form_fields (form s))"
    using inv by (auto simp: ui_inv_def form_ok_def)
  then have "form_fields (form s) \<noteq> [] \<and> list_all frequired (form_fields (form s))"
    by (rule schema_required)
  then have "filter frequired (form_fields (form s)) \<noteq> []"
    by (simp add: list_all_iff)
  then have "\<exists>p. progress_of (form_fields (form s)) (obj_set (form_data (form s)) (fname f) v) = Num p \<and> 0 \<le> p \<and> p \<le> 100"
    by (rule progress_of_bounds)
  moreover from Type_in st have "form s' = handle_change now f v (form s)"
    by (auto simp: ui_step_def)
  ultimately show ?thesis by (simp add: handle_change_def Let_def)
next
  case Submit
  with st have "form s' = snd (handle_submit now (app_edit (app s) \<noteq> None) (form s))"
    by (auto simp: ui_step_def split: prod.splits)
  with ok handle_submit_progress [of now "app_edit (app s) \<noteq> None" "form s"] show ?thesis by auto
next
  case (Edit_click i)
  with st obtain e f' where "load_edit e (form s) = Inr f'" "form s' = f'"
    by (auto simp: ui_step_def map_sum_Inr_iff split: sum.splits prod.splits)
  with ok load_edit_keeps show ?thesis by metis
next
  case (Delete_click c i)
  with st have "form s' = form s"
    by (auto simp: ui_step_def handle_delete_click_def split: prod.splits if_splits)
  with ok show ?thesis by simp
qed

lemma ui_step_submit_valid:
  assumes "\<not> is_empty_form (form_fields (form s)) (form_data (form s))"
    and "\<forall>f\<in>set (form_fields (form s)). validate_field now (fname f) (obj_get (form_data (form s)) (fname f)) = None"
  shows "ui_step now Submit s =
    (let r = \<lparr>rec_type = form_type (form s), rec_data = form_data (form s)\<rparr>; xs = submitted_data (app s) in
     Inr (Some (Toast_success (if app_edit (app s) = None then ''Form submitted successfully!''
                               else ''Changes saved successfully!'')),
          \<lparr>app = \<lparr>submitted_data = (case app_edit (app s) of None \<Rightarrow> xs @ [r] | Some e \<Rightarrow> xs[edit_index e := r]),
                   app_edit = None\<rparr>,
           form = (form s)\<lparr>form_data := [], form_fields := [], progress := Num 0\<rparr>\<rparr>))"
  using handle_submit_valid [OF assms, of "app_edit (app s) \<noteq> None"]
  by (cases "app_edit (app s)")
     (simp_all add: ui_step_def handle_form_submit_def replace_at_list_update Let_def)

lemma ui_step_delete_confirmed:
  "j < length (submitted_data (app s)) \<Longrightarrow>
     ui_step now (Delete_click True j) s =
       Inr (Some (Toast_success ''Form deleted successfully.''),
            s\<lparr>app := (app s)\<lparr>submitted_data := remove_at j (submitted_data (app s))\<rparr>\<rparr>)"
  by (simp add: ui_step_def handle_delete_click_def handle_delete_def)

text \<open>C21. In every reachable state the progress bar's value is a number from 0 to
  100: never NaN, because every field the page renders comes from a schema whose fields
  are all required.\<close>

theorem reachable_progress:
  "reachable s \<Longrightarrow> \<exists>p. progress (form s) = Num p \<and> 0 \<le> p \<and> p \<le> 100"
proof (induction rule: reachable.induct)
  case init
  then show ?case by (simp add: init_ui_def init_form_def)
next
  case (step s ev now t s')
  then show ?case using reachable_inv step_progress_ok by blast
qed

theorem reachable_progress_witness:
  "reachable init_ui \<and> (\<exists>p. progress (form init_ui) = Num p \<and> 0 \<le> p \<and> p \<le> 100)"
  using reachable.init reachable_progress [OF reachable.init] by blast

end
