(* ===== verification/JsString.thy ===== *)
theory JsString
  imports JsNumber
begin

text \<open>
  The string and object built-ins the rendering code calls: the global regular
  expression replacement \<open>s.replace(/([A-Z])/g, " $1")\<close>, which puts a space before
  every ASCII capital; the anchored replacement \<open>s.replace(/^./, str =>
  str.toUpperCase())\<close>, which upper-cases the first character unless it is a line
  terminator (\<open>.\<close> does not match one); \<open>toUpperCase\<close> on one character; and the
  property order of \<open>Object.entries\<close>, which lists the array-index keys first, in
  ascending numeric order, and the other keys in insertion order.

  Characters are the model's 8-bit code units. \<open>toUpperCase\<close> is modelled on all of
  them except two: the micro sign (0xB5) and y with diaeresis (0xFF) upper-case to
  characters above 0xFF, which the model cannot represent, and are left unchanged; sharp
  s (0xDF) upper-cases to the two characters \<open>SS\<close>.
\<close>

definition is_upper :: "char \<Rightarrow> bool" where
  "is_upper c \<longleftrightarrow> of_char CHR ''A'' \<le> (of_char c :: nat) \<and> of_char c \<le> (of_char CHR ''Z'' :: nat)"

definition to_upper_str :: "char \<Rightarrow> string" where
  "to_upper_str c =
     (let n = (of_char c :: nat) in
      if 97 \<le> n \<and> n \<le> 122 \<or> 224 \<le> n \<and> n \<le> 254 \<and> n \<noteq> 247 then [char_of (n - 32)]
      else if n = 223 then ''SS''
      else [c])"

text \<open>\<open>s.replace(/([A-Z])/g, " $1")\<close>\<close>

definition space_caps :: "string \<Rightarrow> string" where
  "space_caps s = concat (map (\<lambda>c. if is_upper c then [CHR '' '', c] else [c]) s)"

text \<open>\<open>s.replace(/^./, str => str.toUpperCase())\<close>\<close>

fun upper_first :: "string \<Rightarrow> string" where
  "upper_first [] = []"
| "upper_first (c # cs) = (if c = CHR 0x0A \<or> c = CHR 0x0D then c # cs else to_upper_str c @ cs)"

text \<open>A canonical array index: the decimal form of an integer below \<open>2^32 - 1\<close>.\<close>

definition is_array_index :: "string \<Rightarrow> bool" where
  "is_array_index k \<longleftrightarrow> k \<noteq> [] \<and> list_all is_digit k \<and> (hd k = CHR ''0'') = (k = ''0'') \<and>
     digits_value k < 2 ^ 32 - 1"

definition obj_entries :: "'v js_object \<Rightarrow> (string \<times> 'v) list" where
  "obj_entries d =
     sort_key (\<lambda>(k, _). digits_value k) (filter (\<lambda>(k, _). is_array_index k) d) @
     filter (\<lambda>(k, _). \<not> is_array_index k) d"

definition is_ascii :: "char \<Rightarrow> bool" where
  "is_ascii c \<longleftrightarrow> (of_char c :: nat) < 128"

text \<open>
  \<open>String.prototype.replace\<close> with a regular expression (ECMA-262
  \<open>RegExp.prototype[@@replace]\<close>). A matcher stands for \<open>RegExpBuiltinExec\<close>: from
  \<open>lastIndex\<close> it searches forward and returns the start and end of the first match,
  or nothing. With the \<open>g\<close> flag the replacement collects matches in a loop: after a
  match \<open>lastIndex\<close> becomes its end, advanced by one after an empty match, and a
  \<open>lastIndex\<close> past the end of the string fails. The loop's termination depends on the
  matcher, so \<open>exec_all\<close> is a \<open>partial_function (option)\<close> (\<open>None\<close> is "does not
  return"). The results are then spliced into the string, skipping a match that starts
  before the end of the previous one. The replacement is a function of the matched text;
  for \<open>" $1"\<close> with the single group \<open>([A-Z])\<close>, which spans the whole match, that is
  prefixing a space. Without \<open>g\<close> one match is searched from index 0.
\<close>

type_synonym matcher = "string \<Rightarrow> nat \<Rightarrow> (nat \<times> nat) option"

partial_function (option) exec_all :: "matcher \<Rightarrow> string \<Rightarrow> nat \<Rightarrow> (nat \<times> nat) list option" where
  "exec_all m s li =
     (if length s < li then Some []
      else (case m s li of
              None \<Rightarrow> Some []
            | Some (st, en) \<Rightarrow>
                Option.bind (exec_all m s (if en = st then Suc en else en)) (\<lambda>ms. Some ((st, en) # ms))))"

fun splice :: "(string \<Rightarrow> string) \<Rightarrow> string \<Rightarrow> nat \<Rightarrow> (nat \<times> nat) list \<Rightarrow> string" where
  "splice r s nxt [] = drop nxt s"
| "splice r s nxt ((st, en) # ms) =
     (if nxt \<le> st then take (st - nxt) (drop nxt s) @ r (take (en - st) (drop st s)) @ splice r s en ms
      else splice r s nxt ms)"

definition regexp_replace_all :: "matcher \<Rightarrow> (string \<Rightarrow> string) \<Rightarrow> string \<Rightarrow> string option" where
  "regexp_replace_all m r s = map_option (splice r s 0) (exec_all m s 0)"

definition matcher_ok :: "matcher \<Rightarrow> string \<Rightarrow> bool" where
  "matcher_ok m s \<longleftrightarrow>
     list_all (\<lambda>li. case m s li of None \<Rightarrow> True | Some (st, en) \<Rightarrow> li \<le> st \<and> st \<le> en \<and> en \<le> length s)
       [0..<Suc (length s)]"

definition regexp_replace_first :: "matcher \<Rightarrow> (string \<Rightarrow> string) \<Rightarrow> string \<Rightarrow> string" where
  "regexp_replace_first m r s =
     (case m s 0 of None \<Rightarrow> s | Some (st, en) \<Rightarrow> take st s @ r (take (en - st) (drop st s)) @ drop en s)"

text \<open>The matchers of \<open>/^./\<close> (only at index 0, not on a line terminator) and of
  \<open>/([A-Z])/\<close> (the first capital at or after \<open>lastIndex\<close>).\<close>

definition first_char_match :: matcher where
  "first_char_match s li =
     (if s \<noteq> [] \<and> hd s \<noteq> CHR 0x0A \<and> hd s \<noteq> CHR 0x0D then Some (0, 1) else None)"

definition first_upper :: "string \<Rightarrow> nat \<Rightarrow> nat option" where
  "first_upper s i = (case filter (\<lambda>j. is_upper (s ! j)) [i..<length s] of [] \<Rightarrow> None | j # _ \<Rightarrow> Some j)"

definition caps_match :: matcher where
  "caps_match s li = map_option (\<lambda>j. (j, Suc j)) (first_upper s li)"

subsection \<open>Lemmas\<close>

lemma space_not_upper [simp]: "\<not> is_upper CHR '' ''"
  by (simp add: is_upper_def)

lemma space_caps_Nil [simp]: "space_caps [] = []"
  by (simp add: space_caps_def)

lemma space_caps_Cons:
  "space_caps (c # cs) = (if is_upper c then CHR '' '' # c # space_caps cs else c # space_caps cs)"
  by (simp add: space_caps_def)

lemma space_caps_hd_not_upper: "space_caps k = c # r \<Longrightarrow> \<not> is_upper c"
  by (cases k) (auto simp: space_caps_Cons split: if_splits)

lemma space_caps_inj: "space_caps k1 = space_caps k2 \<Longrightarrow> k1 = k2"
proof (induction k1 arbitrary: k2)
  case Nil
  then show ?case by (cases k2) (auto simp: space_caps_Cons split: if_splits)
next
  case (Cons c cs)
  then show ?case
    by (cases k2)
      (auto simp: space_caps_Cons dest: space_caps_hd_not_upper space_caps_hd_not_upper [OF sym]
        split: if_splits)
qed

lemma space_caps_ascii: "list_all is_ascii k \<Longrightarrow> list_all is_ascii (space_caps k)"
  by (induction k) (auto simp: space_caps_Cons is_ascii_def)

lemma to_upper_str_non_empty [simp]: "to_upper_str c \<noteq> []"
  by (simp add: to_upper_str_def Let_def)

text \<open>The line-terminator exception of \<open>/^./\<close> does not change the result.\<close>

lemma upper_first_Cons [simp]: "upper_first (c # cs) = to_upper_str c @ cs"
  by (auto simp: to_upper_str_def)

declare upper_first.simps(2) [simp del]

lemma to_upper_str_ascii:
  assumes "is_ascii c"
  shows "\<exists>c'. to_upper_str c = [c'] \<and>
           (of_char c' :: nat) = (if 97 \<le> (of_char c :: nat) \<and> (of_char c :: nat) \<le> 122 then of_char c - 32 else of_char c)"
proof (cases "97 \<le> (of_char c :: nat) \<and> (of_char c :: nat) \<le> 122")
  case True
  then have "(of_char c :: nat) - 32 < 256" by arith
  with True show ?thesis by (simp add: to_upper_str_def Let_def)
next
  case False
  then show ?thesis using assms by (auto simp: to_upper_str_def is_ascii_def Let_def)
qed

text \<open>On ASCII characters that are not capitals, upper-casing the first character of a
  string loses nothing: the character and the rest are determined by the result.\<close>

lemma to_upper_str_eq:
  assumes "is_ascii c1" "is_ascii c2" "to_upper_str c1 @ r1 = to_upper_str c2 @ r2"
    "\<not> is_upper c1" "\<not> is_upper c2"
  shows "c1 = c2 \<and> r1 = r2"
proof -
  define n1 where "n1 = (of_char c1 :: nat)"
  define n2 where "n2 = (of_char c2 :: nat)"
  obtain d1 d2 where d1: "to_upper_str c1 = [d1]" "(of_char d1 :: nat) = (if 97 \<le> n1 \<and> n1 \<le> 122 then n1 - 32 else n1)"
    and d2: "to_upper_str c2 = [d2]" "(of_char d2 :: nat) = (if 97 \<le> n2 \<and> n2 \<le> 122 then n2 - 32 else n2)"
    using to_upper_str_ascii [OF assms(1)] to_upper_str_ascii [OF assms(2)] unfolding n1_def n2_def by blast
  have "d1 = d2" "r1 = r2" using assms(3) d1(1) d2(1) by simp_all
  moreover have "\<not> (65 \<le> n1 \<and> n1 \<le> 90)" "\<not> (65 \<le> n2 \<and> n2 \<le> 90)"
    using assms(4,5) by (simp_all add: is_upper_def n1_def n2_def)
  ultimately have "n1 = n2" using d1(2) d2(2) by (auto split: if_splits)
  with \<open>r1 = r2\<close> show ?thesis by (simp add: n1_def n2_def)
qed

lemma obj_entries_plain:
  "list_all (\<lambda>(k, _). \<not> is_array_index k) d \<Longrightarrow> obj_entries d = d"
  by (simp add: obj_entries_def list_all_iff case_prod_beta)

lemma matcher_okD:
  assumes "matcher_ok m s" and "li \<le> length s" and "m s li = Some (st, en)"
  shows "li \<le> st \<and> st \<le> en \<and> en \<le> length s"
proof -
  have "li \<in> set [0..<Suc (length s)]" using assms(2) by (simp del: upt_Suc)
  with assms(1) have "case m s li of None \<Rightarrow> True | Some (st, en) \<Rightarrow> li \<le> st \<and> st \<le> en \<and> en \<le> length s"
    by (simp add: matcher_ok_def list_all_iff del: upt_Suc)
  with assms(3) show ?thesis by simp
qed

lemma exec_all_terminates:
  assumes "matcher_ok m s"
  shows "\<exists>ms. exec_all m s li = Some ms"
proof (induction li rule: measure_induct_rule [where f = "\<lambda>li. Suc (length s) - li"])
  case (less li)
  show ?case
  proof (cases "length s < li")
    case True
    then show ?thesis by (simp add: exec_all.simps)
  next
    case False
    show ?thesis
    proof (cases "m s li")
      case None
      with False show ?thesis by (simp add: exec_all.simps)
    next
      case (Some p)
      obtain st en where p: "p = (st, en)" by (cases p)
      have "li \<le> st" "st \<le> en" "en \<le> length s"
        using matcher_okD [OF assms, of li st en] False Some p by auto
      then obtain ms where "exec_all m s (if en = st then Suc en else en) = Some ms"
        using less [of "if en = st then Suc en else en"] by fastforce
      with False Some p show ?thesis by (simp add: exec_all.simps)
    qed
  qed
qed

lemma filter_upt_Cons:
  "filter P [i..<n] = j # xs \<Longrightarrow> i \<le> j \<and> j < n \<and> P j \<and> xs = filter P [Suc j..<n]"
proof (induction "n - i" arbitrary: i)
  case 0
  then show ?case by simp
next
  case (Suc k)
  then have i: "i < n" by simp
  then have u: "[i..<n] = i # [Suc i..<n]" by (rule upt_conv_Cons)
  show ?case
  proof (cases "P i")
    case True
    with Suc.prems u i show ?thesis by auto
  next
    case False
    with Suc.prems u have "filter P [Suc i..<n] = j # xs" by simp
    moreover have "Suc i \<le> j \<and> j < n \<and> P j \<and> xs = filter P [Suc j..<n]"
      using Suc.hyps(1) [of "Suc i"] Suc.hyps(2) calculation by simp
    ultimately show ?thesis by simp
  qed
qed

lemma exec_all_caps:
  "exec_all caps_match s li = Some (map (\<lambda>j. (j, Suc j)) (filter (\<lambda>j. is_upper (s ! j)) [li..<length s]))"
proof (induction li rule: measure_induct_rule [where f = "\<lambda>li. Suc (length s) - li"])
  case (less li)
  show ?case
  proof (cases "filter (\<lambda>j. is_upper (s ! j)) [li..<length s]")
    case Nil
    then have "caps_match s li = None" by (simp add: caps_match_def first_upper_def)
    with Nil show ?thesis by (subst exec_all.simps) simp
  next
    case (Cons j js)
    then have j: "li \<le> j" "j < length s" "js = filter (\<lambda>j. is_upper (s ! j)) [Suc j..<length s]"
      using filter_upt_Cons by blast+
    have r: "exec_all caps_match s (Suc j) = Some (map (\<lambda>j. (j, Suc j)) js)"
      using less [of "Suc j"] j by simp
    have "caps_match s li = Some (j, Suc j)" using Cons by (simp add: caps_match_def first_upper_def)
    with Cons j r show ?thesis by (subst exec_all.simps) simp
  qed
qed

lemma splice_caps:
  "nxt \<le> i \<Longrightarrow>
   splice (\<lambda>m. CHR '' '' # m) s nxt (map (\<lambda>j. (j, Suc j)) (filter (\<lambda>j. is_upper (s ! j)) [i..<length s])) =
     take (i - nxt) (drop nxt s) @ space_caps (drop i s)"
proof (induction "length s - i" arbitrary: i nxt)
  case 0
  then show ?case by simp
next
  case (Suc k)
  then have i: "i < length s" by simp
  then have u: "[i..<length s] = i # [Suc i..<length s]" by (rule upt_conv_Cons)
  have d: "drop i s = s ! i # drop (Suc i) s" using i by (rule Cons_nth_drop_Suc [symmetric])
  show ?case
  proof (cases "is_upper (s ! i)")
    case True
    have "take (Suc i - i) (drop i s) = [s ! i]" using d by simp
    with True Suc u d show ?thesis by (simp add: space_caps_Cons)
  next
    case False
    have "take (Suc i - nxt) (drop nxt s) = take (i - nxt) (drop nxt s) @ [s ! i]"
      using Suc.prems i by (simp add: Suc_diff_le take_Suc_conv_app_nth)
    with False Suc u d show ?thesis by (simp add: space_caps_Cons)
  qed
qed

lemma caps_match_ok: "matcher_ok caps_match s"
  unfolding matcher_ok_def list_all_iff
proof
  fix li
  show "case caps_match s li of None \<Rightarrow> True | Some (st, en) \<Rightarrow> li \<le> st \<and> st \<le> en \<and> en \<le> length s"
  proof (cases "filter (\<lambda>j. is_upper (s ! j)) [li..<length s]")
    case Nil
    then show ?thesis by (simp add: caps_match_def first_upper_def)
  next
    case (Cons j js)
    then have "li \<le> j \<and> j < length s" using filter_upt_Cons by blast
    with Cons show ?thesis by (simp add: caps_match_def first_upper_def)
  qed
qed

lemma upper_first_regexp:
  "regexp_replace_first first_char_match (\<lambda>m. concat (map to_upper_str m)) s = upper_first s"
  by (cases s) (auto simp: regexp_replace_first_def first_char_match_def to_upper_str_def)

subsection \<open>Properties\<close>

text \<open>C31. The label code's \<open>key.replace(/([A-Z])/g, " $1")\<close>, run as the
  specification's replacement loop over the matches of \<open>[A-Z]\<close>, returns and computes
  \<open>space_caps\<close>: a space before every ASCII capital and nothing else changed.\<close>

theorem space_caps_regexp:
  "regexp_replace_all caps_match (\<lambda>m. CHR '' '' # m) s = Some (space_caps s)"
  using splice_caps [of 0 0 s] by (simp add: regexp_replace_all_def exec_all_caps)

text \<open>A global regular-expression replacement returns whenever the matcher keeps
  the contract of \<open>RegExpBuiltinExec\<close> (every match lies between \<open>lastIndex\<close> and the
  end of the string): each round of the loop moves \<open>lastIndex\<close> strictly forward,
  also after an empty match, and a \<open>lastIndex\<close> past the end stops it.\<close>

lemma regexp_replace_terminates:
  assumes "matcher_ok m s"
  shows "\<exists>t. regexp_replace_all m r s = Some t"
  using exec_all_terminates [OF assms, of 0] by (auto simp: regexp_replace_all_def)


end
