(* ===== verification/TableView.thy ===== *)
theory TableView
  imports Ui JsString
begin

text \<open>
  The table of submitted rows, \<open>DataTable\<close> (\<open>src/src/components/DataTable.jsx\<close>,
  lines 29--45), and its placement by \<open>App\<close> (\<open>src/src/App.jsx\<close>, lines 45--47:
  the table is rendered only while the store is non-empty). Each row shows a heading
  chosen by the three guarded strings \<open>row.type === "userInfo" && "User Information"\<close>
  (a false guard renders nothing) and one line per entry of \<open>Object.entries(row.data)\<close>:
  the key, spaced before capitals and with its first letter upper-cased, then a colon,
  and the value. The view is the text the page shows: a heading and a list of
  (label, value) pairs per row. The Edit and Delete buttons of each row are bound to
  the row's index (\<open>data_table\<close>, the component's body) and clicking them is the
  events \<open>Edit_click\<close> and \<open>Delete_click\<close> of \<open>Ui\<close>.
\<close>

text \<open>\<open>key.replace(/([A-Z])/g, " $1").replace(/^./, (str) => str.toUpperCase())\<close>\<close>

definition format_key :: "string \<Rightarrow> string" where
  "format_key k = upper_first (space_caps k)"

definition type_heading :: "string \<Rightarrow> string" where
  "type_heading t =
     (if t = ''userInfo'' then ''User Information'' else []) @
     (if t = ''address'' then ''Address Information'' else []) @
     (if t = ''payment'' then ''Payment Information'' else [])"

definition render_entry :: "string \<times> string \<Rightarrow> string \<times> string" where
  "render_entry kv = (case kv of (k, v) \<Rightarrow> (format_key k @ '':'', v))"

definition render_row :: "form_record \<Rightarrow> string \<times> (string \<times> string) list" where
  "render_row r = (type_heading (rec_type r), map render_entry (obj_entries (rec_data r)))"

definition render_table :: "form_record list \<Rightarrow> (string \<times> (string \<times> string) list) list" where
  "render_table xs = map render_row xs"

definition app_table :: "app_state \<Rightarrow> (string \<times> (string \<times> string) list) list option" where
  "app_table a = (if 0 < length (submitted_data a) then Some (render_table (submitted_data a)) else None)"

text \<open>The two buttons under each row (lines 46--59): \<open>Edit\<close> calls \<open>handleEditClick(index)\<close>,
  \<open>Delete\<close> calls \<open>handleDeleteClick(index)\<close>, with \<open>index\<close> the row's position in
  \<open>data.map\<close>.\<close>

datatype row_button = Edit_button nat | Delete_button nat

definition row_buttons :: "nat \<Rightarrow> (string \<times> row_button) list" where
  "row_buttons i = [(''Edit'', Edit_button i), (''Delete'', Delete_button i)]"

definition table_buttons :: "form_record list \<Rightarrow> (string \<times> row_button) list" where
  "table_buttons xs = concat (map row_buttons [0..<length xs])"

definition app_buttons :: "app_state \<Rightarrow> (string \<times> row_button) list" where
  "app_buttons a = (if 0 < length (submitted_data a) then table_buttons (submitted_data a) else [])"

text \<open>The component's body as a whole (lines 29--61): \<open>data.map((row, index) => ...)\<close>
  renders for each row its heading and entries together with the two buttons bound to
  that row's \<open>index\<close>.\<close>

definition data_table :: "form_record list \<Rightarrow> ((string \<times> (string \<times> string) list) \<times> (string \<times> row_button) list) list" where
  "data_table data = map (\<lambda>(index, row). (render_row row, row_buttons index)) (enumerate 0 data)"

text \<open>The form right after \<open>userInfo\<close> is selected, and its fields in the order
  last name, first name, age.\<close>

definition s_sel :: ui_state where
  "s_sel = \<lparr>app = init_app,
            form = init_form\<lparr>form_type := ''userInfo'', form_fields := the (lookup_schema ''userInfo'')\<rparr>\<rparr>"

definition swapped_fields :: "field_descriptor list" where
  "swapped_fields = [field ''lastName'' Text ''Last Name'', field ''firstName'' Text ''First Name'',
                     field ''age'' Number ''Age'']"

subsection \<open>Labels\<close>

text \<open>Distinct ASCII keys get distinct labels: a capital always follows an inserted
  space, so the result never starts with a capital that the upper-casing could have
  produced from a lower-case letter.\<close>

lemma format_key_inj:
  assumes "list_all is_ascii k1" "list_all is_ascii k2" "format_key k1 = format_key k2"
  shows "k1 = k2"
proof -
  have "space_caps k1 = space_caps k2"
  proof (cases "space_caps k1")
    case Nil
    then show ?thesis using assms(3) by (cases "space_caps k2") (auto simp: format_key_def)
  next
    case (Cons c1 r1)
    show ?thesis
    proof (cases "space_caps k2")
      case Nil
      then show ?thesis using assms(3) Cons by (simp add: format_key_def)
    next
      case (Cons c2 r2)
      have a: "is_ascii c1" "is_ascii c2"
        using space_caps_ascii [OF assms(1)] space_caps_ascii [OF assms(2)] \<open>space_caps k1 = c1 # r1\<close> Cons
        by auto
      have "to_upper_str c1 @ r1 = to_upper_str c2 @ r2"
        using assms(3) \<open>space_caps k1 = c1 # r1\<close> Cons by (simp add: format_key_def)
      then show ?thesis
        using \<open>space_caps k1 = c1 # r1\<close> Cons a to_upper_str_eq [of c1 c2 r1 r2]
          space_caps_hd_not_upper [of k1] space_caps_hd_not_upper [of k2] by simp
    qed
  qed
  then show ?thesis by (rule space_caps_inj)
qed

lemma labels_distinct:
  assumes "list_all (list_all is_ascii) ks" "distinct ks"
  shows "distinct (map (\<lambda>k. format_key k @ '':'') ks)"
proof -
  have "inj_on (\<lambda>k. format_key k @ '':'') (set ks)"
    using assms(1) by (auto intro!: inj_onI format_key_inj simp: list_all_iff)
  with assms(2) show ?thesis by (simp add: distinct_map)
qed

lemma map_fst_render_entry: "map fst (map render_entry d) = map (\<lambda>k. format_key k @ '':'') (obj_keys d)"
  by (induction d) (auto simp: render_entry_def obj_keys_def)

lemma map_snd_render_entry: "map snd (map render_entry d) = map snd d"
  by (induction d) (auto simp: render_entry_def)

lemma app_buttons_iff:
  "(''Edit'', Edit_button i) \<in> set (app_buttons a) \<longleftrightarrow> i < length (submitted_data a)"
  "(''Delete'', Delete_button i) \<in> set (app_buttons a) \<longleftrightarrow> i < length (submitted_data a)"
  by (auto simp: app_buttons_def table_buttons_def row_buttons_def)

lemma data_table_nth:
  "k < length xs \<Longrightarrow> data_table xs ! k = (render_row (xs ! k), row_buttons k)"
  by (simp add: data_table_def nth_enumerate_eq)

lemma length_data_table: "length (data_table xs) = length xs"
  by (simp add: data_table_def)

text \<open>The table's text and its buttons are the two projections of the component.\<close>

lemma data_table_render: "map fst (data_table xs) = render_table xs"
  by (rule nth_equalityI) (simp_all add: length_data_table data_table_nth render_table_def)

lemma data_table_buttons: "concat (map snd (data_table xs)) = table_buttons xs"
proof -
  have "map snd (data_table xs) = map row_buttons [0..<length xs]"
    by (rule nth_equalityI) (simp_all add: length_data_table data_table_nth)
  then show ?thesis by (simp add: table_buttons_def)
qed

subsection \<open>Rows of the catalog's types\<close>

lemma type_heading_registered: "lookup_schema t \<noteq> None \<Longrightarrow> type_heading t \<noteq> []"
  by (auto simp: lookup_schema_def catalog_defs obj_get_def type_heading_def split: if_splits)

lemma schema_names_ascii:
  "lookup_schema t = Some fs \<Longrightarrow> list_all (\<lambda>f. list_all is_ascii (fname f)) fs"
  using lookup_schema_cases [of t fs] by (auto simp: catalog_defs is_ascii_def obj_get_def)

lemma schema_names_not_index:
  "lookup_schema t = Some fs \<Longrightarrow> list_all (\<lambda>f. \<not> is_array_index (fname f)) fs"
  using lookup_schema_cases [of t fs] by (auto simp: catalog_defs is_array_index_def is_digit_def obj_get_def)

lemma record_ok_row:
  assumes "record_ok r"
  obtains fs where "lookup_schema (rec_type r) = Some fs" "distinct (obj_keys (rec_data r))"
    "set (obj_keys (rec_data r)) = fname ` set fs"
    "list_all (list_all is_ascii) (obj_keys (rec_data r))"
    "list_all (\<lambda>(k, _). \<not> is_array_index k) (rec_data r)"
proof -
  obtain fs where fs: "lookup_schema (rec_type r) = Some fs"
    and d: "distinct (obj_keys (rec_data r))" and k: "set (obj_keys (rec_data r)) = fname ` set fs"
    using assms by (auto simp: record_ok_def field_names_def split: option.splits)
  have "list_all (list_all is_ascii) (obj_keys (rec_data r))"
    using schema_names_ascii [OF fs] k by (auto simp: list_all_iff)
  moreover have "list_all (\<lambda>(k, _). \<not> is_array_index k) (rec_data r)"
  proof -
    have "\<forall>x\<in>set (rec_data r). fst x \<in> fname ` set fs"
      using k by (auto simp: obj_keys_def)
    then show ?thesis using schema_names_not_index [OF fs] by (auto simp: list_all_iff)
  qed
  ultimately show ?thesis using that fs d k by blast
qed

subsection \<open>Key order under typing\<close>

text \<open>\<open>{...formData, [name]: value}\<close> keeps a key where it was and appends a new one,
  so the keys are the typed names in the order of their first occurrence.\<close>

lemma first_occ_snoc:
  "rev (remdups (rev (xs @ [k]))) = (if k \<in> set xs then rev (remdups (rev xs)) else rev (remdups (rev xs)) @ [k])"
  by simp

lemma first_occ_append: "rev (remdups (rev (xs @ ys))) = rev (remdups (rev (rev (remdups (rev xs)) @ ys)))"
  by (metis remdups_append2 rev_append rev_rev_ident)

lemma run_typing_keys:
  "length vs = length fs \<Longrightarrow> distinct (obj_keys (form_data (form s))) \<Longrightarrow>
   \<exists>s'. ui_run now (map2 Type_in fs vs) s = Inr s' \<and> form_fields (form s') = form_fields (form s) \<and>
        form_type (form s') = form_type (form s) \<and>
        obj_keys (form_data (form s')) = rev (remdups (rev (obj_keys (form_data (form s)) @ map fname fs)))"
proof (induction vs fs arbitrary: s rule: list_induct2)
  case Nil
  then show ?case by (simp add: distinct_remdups_id)
next
  case (Cons v vs f fs)
  let ?s1 = "s\<lparr>form := handle_change now f v (form s)\<rparr>"
  have dist1: "distinct (obj_keys (form_data (form ?s1)))"
    using Cons.prems by (simp add: handle_change_def Let_def)
  obtain s' where s': "ui_run now (map2 Type_in fs vs) ?s1 = Inr s'" "form_fields (form s') = form_fields (form ?s1)"
    "form_type (form s') = form_type (form ?s1)"
    "obj_keys (form_data (form s')) = rev (remdups (rev (obj_keys (form_data (form ?s1)) @ map fname fs)))"
    using Cons.IH [OF dist1] by blast
  have k: "rev (remdups (rev (obj_keys (form_data (form ?s1))))) =
           rev (remdups (rev (obj_keys (form_data (form s)) @ [fname f])))"
    by (simp add: handle_change_def Let_def)
  have "rev (remdups (rev (obj_keys (form_data (form ?s1)) @ map fname fs))) =
        rev (remdups (rev (obj_keys (form_data (form s)) @ fname f # map fname fs)))"
    using first_occ_append [of "obj_keys (form_data (form ?s1))" "map fname fs"]
      first_occ_append [of "obj_keys (form_data (form s)) @ [fname f]" "map fname fs"] k by simp
  then show ?case using s' by (simp add: ui_step_def handle_change_def Let_def)
qed

lemma form_keys_not_index:
  assumes "form_ok f" and "set ks \<subseteq> set (field_names (form_fields f))"
  shows "\<forall>k\<in>set ks. \<not> is_array_index k"
proof (cases "form_fields f = []")
  case True
  then show ?thesis using assms(2) by (simp add: field_names_def)
next
  case False
  then have "lookup_schema (form_type f) = Some (form_fields f)" using assms(1) by (simp add: form_ok_def)
  then show ?thesis using assms(2) schema_names_not_index [of "form_type f" "form_fields f"]
    by (auto simp: field_names_def list_all_iff)
qed

subsection \<open>Properties\<close>

text \<open>C23. In every reachable state each row of the table has a non-empty heading and
  one line per field of its type's schema, with pairwise distinct labels, and lists the
  values in the order of the row's data (the order in which they were first typed).\<close>

theorem reachable_table_rows:
  assumes "reachable s" and "r \<in> set (submitted_data (app s))"
  shows "\<exists>fs. lookup_schema (rec_type r) = Some fs \<and> fst (render_row r) \<noteq> [] \<and>
           distinct (map fst (snd (render_row r))) \<and>
           set (map fst (snd (render_row r))) = (\<lambda>f. format_key (fname f) @ '':'') ` set fs \<and>
           map snd (snd (render_row r)) = map snd (rec_data r)"
proof -
  have "record_ok r" using reachable_inv [OF assms(1)] assms(2) by (simp add: ui_inv_def list_all_iff)
  then obtain fs where fs: "lookup_schema (rec_type r) = Some fs" and d: "distinct (obj_keys (rec_data r))"
    and k: "set (obj_keys (rec_data r)) = fname ` set fs"
    and a: "list_all (list_all is_ascii) (obj_keys (rec_data r))"
    and p: "list_all (\<lambda>(k, _). \<not> is_array_index k) (rec_data r)"
    by (rule record_ok_row)
  have e: "snd (render_row r) = map render_entry (rec_data r)"
    by (simp add: render_row_def obj_entries_plain [OF p])
  have l: "map fst (snd (render_row r)) = map (\<lambda>k. format_key k @ '':'') (obj_keys (rec_data r))"
    by (simp only: e map_fst_render_entry)
  have "set (map fst (snd (render_row r))) = (\<lambda>f. format_key (fname f) @ '':'') ` set fs"
    unfolding l set_map k by auto
  moreover have "map snd (snd (render_row r)) = map snd (rec_data r)"
    by (simp only: e map_snd_render_entry)
  moreover have "fst (render_row r) \<noteq> []"
    using fs type_heading_registered [of "rec_type r"] by (simp add: render_row_def)
  ultimately show ?thesis
    using fs labels_distinct [OF a d] unfolding l by blast
qed

text \<open>C13. The buttons of a row act on the row they are shown with: in every reachable
  state, the Edit button rendered beside the \<open>k\<close>-th row is offered, succeeds and
  loads into the form exactly the row that block shows (its heading and lines), with the
  edit index \<open>k\<close> and the schema of its type; the Delete button beside it, confirmed,
  removes exactly that block from the table.\<close>

theorem row_buttons_act_on_row:
  assumes "reachable s" and "k < length (submitted_data (app s))"
    and "data_table (submitted_data (app s)) ! k = (v, bs)"
  shows "(\<forall>i. (''Edit'', Edit_button i) \<in> set bs \<longrightarrow>
            ui_enabled s (Edit_click i) \<and>
            (\<exists>t s'. ui_step now (Edit_click i) s = Inr (t, s') \<and>
               render_row \<lparr>rec_type = form_type (form s'), rec_data = form_data (form s')\<rparr> = v \<and>
               map_option edit_index (app_edit (app s')) = Some k \<and>
               lookup_schema (form_type (form s')) = Some (form_fields (form s')))) \<and>
         (\<forall>i. (''Delete'', Delete_button i) \<in> set bs \<longrightarrow>
            ui_enabled s (Delete_click True i) \<and>
            (\<exists>t s'. ui_step now (Delete_click True i) s = Inr (t, s') \<and>
               render_table (submitted_data (app s')) = remove_at k (render_table (submitted_data (app s)))))"
proof -
  let ?xs = "submitted_data (app s)"
  have vb: "v = render_row (?xs ! k)" "bs = row_buttons k"
    using assms(3) data_table_nth [OF assms(2)] by simp_all
  have "record_ok (?xs ! k)" using reachable_inv [OF assms(1)] assms(2) by (simp add: ui_inv_def list_all_length)
  then obtain fs where fs: "lookup_schema (rec_type (?xs ! k)) = Some fs"
    by (auto simp: record_ok_def split: option.splits)
  have edit: "ui_enabled s (Edit_click k) \<and>
            (\<exists>t s'. ui_step now (Edit_click k) s = Inr (t, s') \<and>
               render_row \<lparr>rec_type = form_type (form s'), rec_data = form_data (form s')\<rparr> = v \<and>
               map_option edit_index (app_edit (app s')) = Some k \<and>
               lookup_schema (form_type (form s')) = Some (form_fields (form s')))"
    using assms(2) fs vb(1)
    by (simp add: ui_enabled_def ui_step_def handle_edit_click_def handle_edit_def load_edit_def Let_def form_record_eta)
  have del: "ui_enabled s (Delete_click True k) \<and>
            (\<exists>t s'. ui_step now (Delete_click True k) s = Inr (t, s') \<and>
               render_table (submitted_data (app s')) = remove_at k (render_table ?xs))"
    using assms(2)
    by (simp add: ui_enabled_def ui_step_def handle_delete_click_def handle_delete_def remove_at_take_drop
        render_table_def take_map drop_map)
  show ?thesis using edit del vb(2) by (auto simp: row_buttons_def)
qed

text \<open>The table's labels are the form's labels for every field of the catalog except
  \<open>cvv\<close>, which the form labels \<open>CVV\<close> and the table \<open>Cvv\<close>.\<close>

lemma table_labels_vs_form_labels:
  "list_all (\<lambda>(t, fs). list_all (\<lambda>f. (format_key (fname f) = flabel f) = (fname f \<noteq> ''cvv'')) fs)
     api_responses \<and> format_key ''cvv'' = ''Cvv''"
  by code_simp

text \<open>C33. The table lists a row's fields in the order they were first typed, not in the
  order of the schema: in every reachable state, typing values into rendered fields in
  any order gives data whose row, once stored, shows its labels in the order of the first
  occurrence of each field name among the keys already present and the names typed.\<close>

theorem table_typing_order:
  assumes "reachable s" and "length vs = length fs" and "set fs \<subseteq> set (form_fields (form s))"
  shows "\<exists>s'. ui_run now (map2 Type_in fs vs) s = Inr s' \<and>
           map fst (snd (render_row \<lparr>rec_type = form_type (form s'), rec_data = form_data (form s')\<rparr>)) =
           map (\<lambda>k. format_key k @ '':'') (rev (remdups (rev (obj_keys (form_data (form s)) @ map fname fs))))"
proof -
  have ok: "form_ok (form s)" using reachable_inv [OF assms(1)] by (simp add: ui_inv_def)
  then have dist: "distinct (obj_keys (form_data (form s)))" by (simp add: form_ok_def)
  obtain s' where s': "ui_run now (map2 Type_in fs vs) s = Inr s'" "form_fields (form s') = form_fields (form s)"
    "form_type (form s') = form_type (form s)"
    and k: "obj_keys (form_data (form s')) = rev (remdups (rev (obj_keys (form_data (form s)) @ map fname fs)))"
    using run_typing_keys [OF assms(2) dist] by blast
  have "set (obj_keys (form_data (form s'))) \<subseteq> set (field_names (form_fields (form s)))"
    using k ok assms(3) by (auto simp: form_ok_def field_names_def)
  then have "\<forall>k\<in>set (obj_keys (form_data (form s'))). \<not> is_array_index k"
    by (rule form_keys_not_index [OF ok])
  then have p: "list_all (\<lambda>(k, _). \<not> is_array_index k) (form_data (form s'))"
    by (auto simp: list_all_iff obj_keys_def)
  have "map fst (snd (render_row \<lparr>rec_type = form_type (form s'), rec_data = form_data (form s')\<rparr>)) =
             map (\<lambda>k. format_key k @ '':'') (obj_keys (form_data (form s')))"
    by (simp only: render_row_def form_record.select_convs snd_conv obj_entries_plain [OF p] map_fst_render_entry)
  then show ?thesis using s'(1) k by auto
qed

theorem table_typing_order_witness:
  "reachable s_sel \<and> length [''Lee'', ''Ann'', ''30''] = length swapped_fields \<and>
   set swapped_fields \<subseteq> set (form_fields (form s_sel)) \<and>
   (\<exists>s'. ui_run 0 (map2 Type_in swapped_fields [''Lee'', ''Ann'', ''30'']) s_sel = Inr s' \<and>
      map fst (snd (render_row \<lparr>rec_type = form_type (form s'), rec_data = form_data (form s')\<rparr>)) =
        [''Last Name:'', ''First Name:'', ''Age:''])"
proof -
  have st: "ui_step 0 (Select_type ''userInfo'') init_ui = Inr (None, s_sel)"
    by code_simp
  have r: "reachable s_sel"
    using reachable.step [OF reachable.init _ st] by (simp add: ui_enabled_def catalog_defs obj_keys_def)
  have l: "length [''Lee'', ''Ann'', ''30''] = length swapped_fields" by (simp add: swapped_fields_def)
  have f: "set swapped_fields \<subseteq> set (form_fields (form s_sel))"
    by (simp add: swapped_fields_def s_sel_def catalog_defs obj_get_def)
  have k: "map (\<lambda>k. format_key k @ '':'')
             (rev (remdups (rev (obj_keys (form_data (form s_sel)) @ map fname swapped_fields)))) =
           [''Last Name:'', ''First Name:'', ''Age:'']"
    by code_simp
  show ?thesis using table_typing_order [OF r l f, of 0] r l f k by simp
qed

end
