(* ===== verification/FormView.thy ===== *)
theory FormView
  imports TableView
begin

text \<open>
  The page as \<open>DynamicForm\<close> renders it (\<open>src/src/components/DynamicForm.jsx\<close>, lines
  128--184) with the table below it (\<open>src/src/App.jsx\<close>, lines 44--50). The menu button
  shows \<open>formType || "Select Form Type"\<close>; the menu lists the keys of \<open>apiResponses\<close>,
  each shown as \<open>key.replace(/([A-Z])/g, " $1")\<close>. Each rendered field shows its label,
  a controlled select (an empty \<open>Select\<close> option, then \<open>field.options\<close>) or an input of
  the field's type, with value \<open>formData[field.name] || ""\<close>, and, below it,
  \<open>errors[field.name]\<close> when that is truthy. \<open>field.options.map\<close> on a dropdown
  without options would throw; that is the value \<open>Render_type_error\<close>. The progress bar's
  width is the number \<open>progress\<close> (its conversion to the string of the CSS width is not
  modelled), and the submit button reads \<open>Save Changes\<close> while the shell passes an
  edit context, \<open>Submit\<close> otherwise.
\<close>

datatype control = Select_control "(string \<times> string) list" | Input_control field_type

record field_view =
  fv_label :: string
  fv_control :: control
  fv_value :: string
  fv_error :: "string option"

record form_view =
  menu_button :: string
  menu_items :: "(string \<times> string) list"
  field_views :: "field_view list"
  progress_width :: js_number
  submit_label :: string

definition menu_button_label :: "string \<Rightarrow> string" where
  "menu_button_label t = (if t = [] then ''Select Form Type'' else t)"

definition menu_entries :: "(string \<times> string) list" where
  "menu_entries = map (\<lambda>k. (k, space_caps k)) form_types"

definition control_of :: "field_descriptor \<Rightarrow> js_error + control" where
  "control_of f =
     (if ftype f = Dropdown then
        (case foptions f of
          None \<Rightarrow> Inl Render_type_error
        | Some os \<Rightarrow> Inr (Select_control (('''', ''Select'') # map (\<lambda>opt. (opt, opt)) os)))
      else Inr (Input_control (ftype f)))"

definition field_value :: "string js_object \<Rightarrow> string \<Rightarrow> string" where
  "field_value d k = (case obj_get d k of Some v \<Rightarrow> v | None \<Rightarrow> [])"

definition error_line :: "string option js_object \<Rightarrow> string \<Rightarrow> string option" where
  "error_line es k = (case obj_get es k of Some (Some e) \<Rightarrow> if e = [] then None else Some e | _ \<Rightarrow> None)"

definition render_field :: "form_state \<Rightarrow> field_descriptor \<Rightarrow> js_error + field_view" where
  "render_field s f =
     map_sum id (\<lambda>c. \<lparr>fv_label = flabel f, fv_control = c, fv_value = field_value (form_data s) (fname f),
                     fv_error = error_line (errors s) (fname f)\<rparr>) (control_of f)"

fun render_fields :: "form_state \<Rightarrow> field_descriptor list \<Rightarrow> js_error + field_view list" where
  "render_fields s [] = Inr []"
| "render_fields s (f # fs) =
     (case render_field s f of
       Inl e \<Rightarrow> Inl e
     | Inr v \<Rightarrow> map_sum id (\<lambda>vs. v # vs) (render_fields s fs))"

definition render_form :: "edit_ctx option \<Rightarrow> form_state \<Rightarrow> js_error + form_view" where
  "render_form ed s =
     map_sum id (\<lambda>vs. \<lparr>menu_button = menu_button_label (form_type s), menu_items = menu_entries,
                      field_views = vs, progress_width = progress s,
                      submit_label = (if ed = None then ''Submit'' else ''Save Changes'')\<rparr>)
       (render_fields s (form_fields s))"

definition render_page ::
  "ui_state \<Rightarrow> js_error + form_view \<times> (string \<times> (string \<times> string) list) list option" where
  "render_page s = map_sum id (\<lambda>fv. (fv, app_table (app s))) (render_form (app_edit (app s)) (form s))"

text \<open>
  What a select may hold: for each dropdown field of a list, the value stored under its
  name is absent or one of the values the select offers. The page keeps this for the
  form, for every stored row (against its type's schema) and for the edit context.
\<close>

definition select_ok :: "field_descriptor list \<Rightarrow> string js_object \<Rightarrow> bool" where
  "select_ok fs d \<longleftrightarrow>
     list_all (\<lambda>f. if ftype f = Dropdown then
                      (case obj_get d (fname f) of None \<Rightarrow> True | Some v \<Rightarrow> v \<in> set (select_values f))
                    else True) fs"

definition row_select_ok :: "string \<Rightarrow> string js_object \<Rightarrow> bool" where
  "row_select_ok t d \<longleftrightarrow> (case lookup_schema t of None \<Rightarrow> True | Some fs \<Rightarrow> select_ok fs d)"

definition sel_inv :: "ui_state \<Rightarrow> bool" where
  "sel_inv s \<longleftrightarrow>
     select_ok (form_fields (form s)) (form_data (form s)) \<and>
     list_all (\<lambda>r. row_select_ok (rec_type r) (rec_data r)) (submitted_data (app s)) \<and>
     (case app_edit (app s) of None \<Rightarrow> True | Some ed \<Rightarrow> row_select_ok (edit_type ed) (edit_data ed))"

subsection \<open>The select invariant\<close>

lemma select_ok_Nil [simp]: "select_ok [] d" "select_ok fs []"
  by (simp_all add: select_ok_def list_all_iff obj_get_def)

lemma select_ok_set:
  assumes "select_ok fs d" and "\<forall>g\<in>set fs. fname g = fname f \<longrightarrow> g = f"
    and "ftype f = Dropdown \<longrightarrow> v \<in> set (select_values f)"
  shows "select_ok fs (obj_set d (fname f) v)"
  using assms by (auto simp: select_ok_def list_all_iff)

lemma form_schema:
  "form_ok fm \<Longrightarrow> f \<in> set (form_fields fm) \<Longrightarrow> lookup_schema (form_type fm) = Some (form_fields fm)"
  by (auto simp: form_ok_def)

lemma sel_select: "sel_inv s \<Longrightarrow> ui_step now (Select_type k) s = Inr (t, s') \<Longrightarrow> sel_inv s'"
  by (auto simp: ui_step_def sel_inv_def handle_dropdown_change_def split: option.splits)

lemma sel_type:
  assumes "ui_inv s" "sel_inv s" "ui_enabled s (Type_in f v)" "ui_step now (Type_in f v) s = Inr (t, s')"
  shows "sel_inv s'"
proof -
  have f: "f \<in> set (form_fields (form s))" and v: "ftype f = Dropdown \<longrightarrow> v \<in> set (select_values f)"
    using assms(3) by (simp_all add: ui_enabled_def)
  have "lookup_schema (form_type (form s)) = Some (form_fields (form s))"
    using assms(1) f form_schema by (simp add: ui_inv_def)
  then have "\<forall>g\<in>set (form_fields (form s)). fname g = fname f \<longrightarrow> g = f"
    using f schema_fname_inj by blast
  then show ?thesis using assms(2,4) f v select_ok_set
    by (auto simp: ui_step_def sel_inv_def handle_change_def Let_def)
qed

lemma sel_submit:
  assumes "ui_inv s" "sel_inv s" "ui_step now Submit s = Inr (t, s')"
  shows "sel_inv s'"
  using ui_step_submit_cases [OF assms(3)]
proof
  assume "app s' = app s \<and> form_fields (form s') = form_fields (form s) \<and> form_data (form s') = form_data (form s) \<and>
          form_type (form s') = form_type (form s)"
  then show ?thesis using assms(2) by (simp add: sel_inv_def)
next
  let ?r = "\<lparr>rec_type = form_type (form s), rec_data = form_data (form s)\<rparr>"
  assume a: "\<not> is_empty_form (form_fields (form s)) (form_data (form s)) \<and>
    (\<forall>g\<in>set (form_fields (form s)). validate_field now (fname g) (obj_get (form_data (form s)) (fname g)) = None) \<and>
    app s' = handle_form_submit ?r (app s) \<and> form s' = (form s)\<lparr>form_data := [], form_fields := [], progress := Num 0\<rparr>"
  then have "form_fields (form s) \<noteq> []" by auto
  then have "lookup_schema (form_type (form s)) = Some (form_fields (form s))"
    using assms(1) by (auto simp: ui_inv_def form_ok_def)
  then have r: "row_select_ok (rec_type ?r) (rec_data ?r)"
    using assms(2) by (simp add: row_select_ok_def sel_inv_def)
  show ?thesis using a assms(2) r
    by (auto simp: sel_inv_def handle_form_submit_def replace_at_list_update list_all_list_update split: option.splits)
qed

lemma sel_edit:
  assumes "sel_inv s" "ui_step now (Edit_click i) s = Inr (t, s')"
  shows "sel_inv s'"
proof -
  from assms(2) have i: "i < length (submitted_data (app s))"
    by (auto simp: ui_step_def handle_edit_click_def handle_edit_def split: sum.splits if_splits)
  let ?r = "submitted_data (app s) ! i"
  from assms(2) i obtain fs where fs: "lookup_schema (rec_type ?r) = Some fs" and
    s': "s' = \<lparr>app = (app s)\<lparr>app_edit := Some \<lparr>edit_index = i, edit_type = rec_type ?r, edit_data = rec_data ?r\<rparr>\<rparr>,
      form = (form s)\<lparr>form_type := rec_type ?r, form_fields := fs, form_data := rec_data ?r\<rparr>\<rparr>"
    by (auto simp: ui_step_def handle_edit_click_def handle_edit_def load_edit_def Let_def split: option.splits)
  have "row_select_ok (rec_type ?r) (rec_data ?r)" using assms(1) i by (simp add: sel_inv_def list_all_length)
  with fs s' assms(1) show ?thesis by (simp add: sel_inv_def row_select_ok_def)
qed

lemma sel_delete: "sel_inv s \<Longrightarrow> ui_step now (Delete_click c i) s = Inr (t, s') \<Longrightarrow> sel_inv s'"
  by (auto simp: ui_step_def handle_delete_click_def handle_delete_def sel_inv_def list_all_remove_at
      split: if_splits)

lemma sel_step:
  assumes "ui_inv s" "sel_inv s" "ui_enabled s ev" "ui_step now ev s = Inr (t, s')"
  shows "sel_inv s'"
proof (cases ev)
  case (Select_type k)
  with assms(2,4) show ?thesis by (simp add: sel_select)
next
  case (Type_in f v)
  with assms show ?thesis by (simp add: sel_type)
next
  case Submit
  with assms(1,2,4) show ?thesis by (simp add: sel_submit)
next
  case (Edit_click i)
  with assms(2,4) show ?thesis by (simp add: sel_edit)
next
  case (Delete_click c i)
  with assms(2,4) show ?thesis by (simp add: sel_delete)
qed

lemma reachable_sel_inv: "reachable s \<Longrightarrow> sel_inv s"
proof (induction rule: reachable.induct)
  case init
  then show ?case by (simp add: sel_inv_def init_ui_def init_app_def init_form_def)
next
  case (step s ev now t s')
  then show ?case using reachable_inv [OF step.hyps(1)] by (rule_tac sel_step) auto
qed

subsection \<open>Rendering\<close>

lemma render_fields_ok:
  assumes "\<forall>f\<in>set fs. (ftype f = Dropdown) = (foptions f \<noteq> None)"
  shows "\<exists>vs. render_fields s fs = Inr vs \<and> list_all2 (\<lambda>f v. render_field s f = Inr v) fs vs"
  using assms
proof (induction fs)
  case Nil
  then show ?case by simp
next
  case (Cons f fs)
  then obtain vs where vs: "render_fields s fs = Inr vs" "list_all2 (\<lambda>f v. render_field s f = Inr v) fs vs"
    by auto
  from Cons.prems obtain v where "render_field s f = Inr v"
    by (cases "foptions f") (auto simp: render_field_def control_of_def)
  with vs show ?case by simp
qed

lemma render_field_label: "render_field s f = Inr v \<Longrightarrow> fv_label v = flabel f"
  by (auto simp: render_field_def map_sum_Inr_iff)

lemma render_field_error: "render_field s f = Inr v \<Longrightarrow> fv_error v = error_line (errors s) (fname f)"
  by (auto simp: render_field_def map_sum_Inr_iff)

lemma error_line_collect:
  assumes "g \<in> set fs"
  shows "error_line (map (\<lambda>(k, e). (k, Some e)) (collect_errors now d fs [])) (fname g) =
           validate_field now (fname g) (obj_get d (fname g))"
proof -
  have c: "obj_get (collect_errors now d fs []) (fname g) = validate_field now (fname g) (obj_get d (fname g))"
    using assms collect_errors_get [of now d fs "[]" "fname g"] by (simp add: obj_get_def)
  show ?thesis
    by (cases "validate_field now (fname g) (obj_get d (fname g))")
      (auto simp: error_line_def obj_get_map_Some c dest: validate_field_msg_nonempty)
qed

lemma render_field_select:
  assumes "render_field s f = Inr v" and "select_ok [f] (form_data s)"
  shows "case fv_control v of Select_control os \<Rightarrow> fv_value v \<in> fst ` set os | Input_control _ \<Rightarrow> True"
  using assms
  by (auto simp: render_field_def control_of_def select_ok_def field_value_def select_values_def image_iff
      split: if_splits option.splits)

lemma form_fields_schema_ok: "ui_inv s \<Longrightarrow> \<forall>f\<in>set (form_fields (form s)). (ftype f = Dropdown) = (foptions f \<noteq> None)"
  by (auto simp: ui_inv_def form_ok_def schema_ok_def dest!: lookup_schema_ok)

text \<open>C12. In every reachable state the page renders without throwing: one view per
  rendered field, carrying the field's label, and every select holds one of the values it
  offers, so no controlled select ever shows a value outside its options.\<close>

theorem reachable_page_renders:
  assumes "reachable s"
  shows "\<exists>fv. render_page s = Inr (fv, app_table (app s)) \<and>
           map fv_label (field_views fv) = map flabel (form_fields (form s)) \<and>
           list_all (\<lambda>v. case fv_control v of Select_control os \<Rightarrow> fv_value v \<in> fst ` set os | Input_control _ \<Rightarrow> True)
             (field_views fv)"
proof -
  have inv: "ui_inv s" and sel: "sel_inv s" using assms by (simp_all add: reachable_inv reachable_sel_inv)
  obtain vs where vs: "render_fields (form s) (form_fields (form s)) = Inr vs"
    and a: "list_all2 (\<lambda>f v. render_field (form s) f = Inr v) (form_fields (form s)) vs"
    using render_fields_ok [OF form_fields_schema_ok [OF inv]] by blast
  have so: "select_ok (form_fields (form s)) (form_data (form s))" using sel by (simp add: sel_inv_def)
  have "map fv_label vs = map flabel (form_fields (form s))"
    using a by (induction rule: list_all2_induct) (auto simp: render_field_label)
  moreover have "list_all (\<lambda>v. case fv_control v of Select_control os \<Rightarrow> fv_value v \<in> fst ` set os | Input_control _ \<Rightarrow> True) vs"
    using a so by (induction rule: list_all2_induct) (auto simp: select_ok_def intro: render_field_select)
  ultimately show ?thesis using vs by (simp add: render_page_def render_form_def)
qed

text \<open>The menu lists the three form types by their keys, spaced before capitals but not
  capitalised (\<open>user Info\<close>), and the menu button shows the raw key of the selected
  type, or \<open>Select Form Type\<close> before the first selection.\<close>

theorem menu_labels:
  "menu_entries = [(''userInfo'', ''user Info''), (''address'', ''address''), (''payment'', ''payment'')] \<and>
   menu_button_label (form_type init_form) = ''Select Form Type'' \<and>
   menu_button_label ''userInfo'' = ''userInfo''"
  by code_simp

text \<open>C22. A submit refused because a field fails its rule shows, under every rendered
  field, exactly that field's validation message, and nothing under the fields that
  pass.\<close>

theorem refused_submit_error_lines:
  assumes "reachable s" and "\<not> is_empty_form (form_fields (form s)) (form_data (form s))"
    and "f \<in> set (form_fields (form s))"
    and "validate_field now (fname f) (obj_get (form_data (form s)) (fname f)) \<noteq> None"
  shows "\<exists>t s' fv. ui_step now Submit s = Inr (t, s') \<and> render_form (app_edit (app s')) (form s') = Inr fv \<and>
           map fv_error (field_views fv) =
             map (\<lambda>g. validate_field now (fname g) (obj_get (form_data (form s)) (fname g))) (form_fields (form s))"
proof -
  let ?d = "form_data (form s)" and ?fs = "form_fields (form s)"
  let ?ve = "collect_errors now ?d ?fs []"
  let ?f' = "(form s)\<lparr>errors := map (\<lambda>(k, e). (k, Some e)) ?ve\<rparr>"
  have "?ve \<noteq> []" using assms(3,4) by (auto simp: collect_errors_Nil_iff)
  then have st: "ui_step now Submit s =
      Inr (Some (Toast_error ''Please fix validation errors before submitting.''), \<lparr>app = app s, form = ?f'\<rparr>)"
    using assms(2) by (simp add: ui_step_def handle_submit_invalid)
  have inv: "ui_inv s" using assms(1) by (rule reachable_inv)
  obtain vs where vs: "render_fields ?f' ?fs = Inr vs"
    and a: "list_all2 (\<lambda>g v. render_field ?f' g = Inr v) ?fs vs"
    using render_fields_ok [OF form_fields_schema_ok [OF inv]] by blast
  have "list_all2 (\<lambda>g v. g \<in> set ?fs \<and> render_field ?f' g = Inr v) ?fs vs"
    using a by (auto simp: list_all2_conv_all_nth)
  then have "map fv_error vs = map (\<lambda>g. validate_field now (fname g) (obj_get ?d (fname g))) ?fs"
    by (induction rule: list_all2_induct) (auto simp: render_field_error error_line_collect)
  with st vs show ?thesis by (simp add: render_form_def)
qed

end
