(* ===== verification/StoreSpec.thy ===== *)
theory StoreSpec
  imports Ui
begin

text \<open>
  The record store as the specification describes it (an ordered, index-addressed
  sequence with \<open>append\<close>, \<open>replaceAt\<close> and \<open>removeAt\<close>, where the last two fail with
  \<open>IndexOutOfRange\<close> on an invalid index), and the refinement mapping that reads each
  page event as the store operation it performs: an accepted submit is an append, or, in
  edit mode, a replacement at the edit index; a confirmed delete is a removal; every
  other event leaves the store alone. The refinement lemma shows that every enabled step
  of the page changes the store exactly as the abstract operation does, stores only
  well-formed rows, and that the one divergence is a replacement at an index the
  abstract store rejects, which the page performs as a silent no-op.
\<close>

datatype store_error = IndexOutOfRange

datatype 'r store_op = Append 'r | ReplaceAt nat 'r | RemoveAt nat

fun store_apply :: "'r store_op \<Rightarrow> 'r list \<Rightarrow> store_error + 'r list" where
  "store_apply (Append r) xs = Inr (xs @ [r])"
| "store_apply (ReplaceAt i r) xs = (if i < length xs then Inr (xs[i := r]) else Inl IndexOutOfRange)"
| "store_apply (RemoveAt i) xs = (if i < length xs then Inr (take i xs @ drop (Suc i) xs) else Inl IndexOutOfRange)"

fun op_record_ok :: "form_record store_op \<Rightarrow> bool" where
  "op_record_ok (Append r) = record_ok r"
| "op_record_ok (ReplaceAt i r) = record_ok r"
| "op_record_ok (RemoveAt i) = True"

definition store_op_of :: "int \<Rightarrow> ui_event \<Rightarrow> ui_state \<Rightarrow> form_record store_op option" where
  "store_op_of now ev s =
     (case ev of
       Submit \<Rightarrow>
         (case snd (fst (handle_submit now (app_edit (app s) \<noteq> None) (form s))) of
           Submitted r \<Rightarrow> Some (case app_edit (app s) of None \<Rightarrow> Append r | Some e \<Rightarrow> ReplaceAt (edit_index e) r)
         | _ \<Rightarrow> None)
     | Delete_click c i \<Rightarrow> if c then Some (RemoveAt i) else None
     | _ \<Rightarrow> None)"

subsection \<open>Lemmas\<close>

lemma ui_step_submit_app:
  "ui_step now Submit s = Inr (t, s') \<Longrightarrow>
     app s' = (case snd (fst (handle_submit now (app_edit (app s) \<noteq> None) (form s))) of
                Submitted r \<Rightarrow> handle_form_submit r (app s) | _ \<Rightarrow> app s)"
  by (auto simp: ui_step_def split: prod.splits)

lemma submitted_ok:
  assumes "ui_inv s" and "snd (fst (handle_submit now ed (form s))) = Submitted r"
  shows "r = \<lparr>rec_type = form_type (form s), rec_data = form_data (form s)\<rparr> \<and> record_ok r"
proof -
  have "r = \<lparr>rec_type = form_type (form s), rec_data = form_data (form s)\<rparr> \<and>
        \<not> is_empty_form (form_fields (form s)) (form_data (form s)) \<and>
        (\<forall>f\<in>set (form_fields (form s)). validate_field now (fname f) (obj_get (form_data (form s)) (fname f)) = None)"
    using handle_submit_cases [of now ed "form s"] assms(2) by auto
  with assms(1) show ?thesis
    by (auto simp: ui_inv_def intro: submitted_record_ok)
qed

lemma store_apply_submit:
  "store_apply (case app_edit a of None \<Rightarrow> Append r | Some e \<Rightarrow> ReplaceAt (edit_index e) r) (submitted_data a) =
     Inr (submitted_data (handle_form_submit r a)) \<or>
   (\<exists>i. (case app_edit a of None \<Rightarrow> Append r | Some e \<Rightarrow> ReplaceAt (edit_index e) r) = ReplaceAt i r \<and>
        store_apply (ReplaceAt i r) (submitted_data a) = Inl IndexOutOfRange \<and>
        submitted_data (handle_form_submit r a) = submitted_data a)"
  by (auto simp: handle_form_submit_def replace_at_list_update list_update_beyond not_less split: option.splits)

subsection \<open>Refinement\<close>

text \<open>C3. The page refines the specified record store: every enabled step either leaves
  the store alone and performs no store operation, or performs the operation
  \<open>store_op_of\<close> reads from it, on a well-formed row; the store then changes exactly as
  the abstract operation says, except for a replacement at an index the abstract store
  rejects with \<open>IndexOutOfRange\<close>, which leaves the store unchanged.\<close>

theorem store_refinement:
  assumes "reachable s" and "ui_enabled s ev" and "ui_step now ev s = Inr (t, s')"
  shows "case store_op_of now ev s of
           None \<Rightarrow> submitted_data (app s') = submitted_data (app s)
         | Some op \<Rightarrow> op_record_ok op \<and>
             (store_apply op (submitted_data (app s)) = Inr (submitted_data (app s')) \<or>
              (\<exists>i r. op = ReplaceAt i r \<and> store_apply op (submitted_data (app s)) = Inl IndexOutOfRange \<and>
                     submitted_data (app s') = submitted_data (app s)))"
proof (cases ev)
  case Submit
  let ?res = "snd (fst (handle_submit now (app_edit (app s) \<noteq> None) (form s)))"
  have a': "app s' = (case ?res of Submitted r \<Rightarrow> handle_form_submit r (app s) | _ \<Rightarrow> app s)"
    using assms(3) Submit ui_step_submit_app by blast
  show ?thesis
  proof (cases ?res)
    case (Submitted r)
    have "record_ok r" using submitted_ok [OF reachable_inv [OF assms(1)] Submitted] by blast
    then show ?thesis
      using Submitted Submit a' store_apply_submit [where a = "app s" and r = r]
      by (cases "app_edit (app s)") (auto simp: store_op_of_def)
  qed (use Submit a' in \<open>simp_all add: store_op_of_def\<close>)
next
  case (Delete_click c i)
  have "i < length (submitted_data (app s))" using assms(2) Delete_click by (simp add: ui_enabled_def)
  then show ?thesis using assms(3) Delete_click
    by (auto simp: ui_step_def handle_delete_click_def handle_delete_def store_op_of_def remove_at_take_drop)
next
  case (Select_type k)
  then show ?thesis using assms(3)
    by (auto simp: ui_step_def store_op_of_def handle_dropdown_change_def map_sum_Inr_iff split: option.splits)
next
  case (Type_in f v)
  then show ?thesis using assms(3) by (auto simp: ui_step_def store_op_of_def)
next
  case (Edit_click i)
  then show ?thesis using assms(3)
    by (auto simp: ui_step_def store_op_of_def handle_edit_click_def handle_edit_def map_sum_Inr_iff Let_def
        split: sum.splits if_splits)
qed

end
