(* ===== verification/Liveness.thy ===== *)
theory Liveness
  imports Ui
begin

text \<open>
  What the user can always achieve, whatever state the page is in: runs of enabled
  events that end in a given outcome. Deleting the first row, confirmed, as many times as
  there are rows empties the table; selecting a form type, typing a valid value into each
  of its fields in order, and submitting stores exactly that row (appended, or written
  over the row being edited). These are the progress properties of the page: no state
  is a dead end for either goal.
\<close>

definition delete_all_events :: "ui_state \<Rightarrow> ui_event list" where
  "delete_all_events s = replicate (length (submitted_data (app s))) (Delete_click True 0)"

definition entry_events :: "string \<Rightarrow> field_descriptor list \<Rightarrow> string list \<Rightarrow> ui_event list" where
  "entry_events t fs vs = Select_type t # map2 Type_in fs vs @ [Submit]"

subsection \<open>Lemmas\<close>

lemma ui_run_append:
  "ui_run now (es1 @ es2) s = (case ui_run now es1 s of Inl e \<Rightarrow> Inl e | Inr s' \<Rightarrow> ui_run now es2 s')"
  by (induction es1 arbitrary: s) (auto split: sum.splits)

lemma run_enabled_append:
  "ui_run now es1 s = Inr s' \<Longrightarrow> run_enabled now (es1 @ es2) s \<longleftrightarrow> run_enabled now es1 s \<and> run_enabled now es2 s'"
  by (induction es1 arbitrary: s) (auto split: sum.splits)

lemma ui_step_delete_first:
  "submitted_data (app s) = r # rs \<Longrightarrow>
     ui_step now (Delete_click True 0) s =
       Inr (Some (Toast_success ''Form deleted successfully.''), s\<lparr>app := (app s)\<lparr>submitted_data := rs\<rparr>\<rparr>)"
  by (simp add: ui_step_def handle_delete_click_def handle_delete_def remove_at_take_drop)

lemma run_delete_first:
  "submitted_data (app s) = xs \<Longrightarrow>
     run_enabled now (replicate (length xs) (Delete_click True 0)) s \<and>
     (\<exists>s'. ui_run now (replicate (length xs) (Delete_click True 0)) s = Inr s' \<and> submitted_data (app s') = [])"
proof (induction xs arbitrary: s)
  case Nil
  then show ?case by simp
next
  case (Cons r rs)
  let ?s1 = "s\<lparr>app := (app s)\<lparr>submitted_data := rs\<rparr>\<rparr>"
  have "run_enabled now (replicate (length rs) (Delete_click True 0)) ?s1 \<and>
        (\<exists>s'. ui_run now (replicate (length rs) (Delete_click True 0)) ?s1 = Inr s' \<and> submitted_data (app s') = [])"
    by (rule Cons.IH) simp
  then show ?case using Cons.prems ui_step_delete_first [OF Cons.prems, of now]
    by (simp add: ui_enabled_def)
qed

lemma run_typing:
  assumes "length vs = length fs" and "set fs \<subseteq> set (form_fields (form s))"
    and "distinct (map fname fs)" and "set (map fname fs) \<inter> set (obj_keys (form_data (form s))) = {}"
    and "list_all2 (\<lambda>f v. ftype f = Dropdown \<longrightarrow> v \<in> set (select_values f)) fs vs"
  shows "run_enabled now (map2 Type_in fs vs) s \<and>
         (\<exists>s'. ui_run now (map2 Type_in fs vs) s = Inr s' \<and> app s' = app s \<and>
               form_fields (form s') = form_fields (form s) \<and> form_type (form s') = form_type (form s) \<and>
               form_data (form s') = form_data (form s) @ zip (map fname fs) vs)"
  using assms
proof (induction vs fs arbitrary: s rule: list_induct2)
  case Nil
  then show ?case by simp
next
  case (Cons v vs f fs)
  let ?s1 = "s\<lparr>form := handle_change now f v (form s)\<rparr>"
  have new: "fname f \<notin> set (obj_keys (form_data (form s)))" using Cons.prems(3) by auto
  have d1: "form_data (form ?s1) = form_data (form s) @ [(fname f, v)]"
    using new by (simp add: handle_change_def Let_def obj_set_new)
  have "run_enabled now (map2 Type_in fs vs) ?s1 \<and>
        (\<exists>s'. ui_run now (map2 Type_in fs vs) ?s1 = Inr s' \<and> app s' = app ?s1 \<and>
              form_fields (form s') = form_fields (form ?s1) \<and> form_type (form s') = form_type (form ?s1) \<and>
              form_data (form s') = form_data (form ?s1) @ zip (map fname fs) vs)"
    using Cons.prems d1 by (intro Cons.IH) (auto simp: handle_change_def Let_def obj_keys_def)
  moreover have "ui_enabled s (Type_in f v)" using Cons.prems by (simp add: ui_enabled_def)
  ultimately show ?case using d1 by (auto simp: ui_step_def handle_change_def Let_def)
qed

lemma zip_valid:
  assumes "length vs = length fs" and "distinct (map fname fs)"
    and "list_all2 (\<lambda>f v. validate_field now (fname f) (Some v) = None) fs vs"
  shows "\<forall>f\<in>set fs. validate_field now (fname f) (obj_get (zip (map fname fs) vs) (fname f)) = None"
proof
  fix f assume "f \<in> set fs"
  then obtain i where i: "i < length fs" "f = fs ! i" by (auto simp: in_set_conv_nth)
  then have "obj_get (zip (map fname fs) vs) (fname f) = Some (vs ! i)"
    using assms(1,2) map_of_zip_nth [of "map fname fs" vs i] by (simp add: obj_get_def)
  with assms(3) i show "validate_field now (fname f) (obj_get (zip (map fname fs) vs) (fname f)) = None"
    by (simp add: list_all2_conv_all_nth)
qed

subsection \<open>Properties\<close>

text \<open>C24. From every state the user can empty the table: confirming the deletion of the
  first row once per row is a run of enabled events that ends with no rows.\<close>

theorem can_empty_store:
  "run_enabled now (delete_all_events s) s \<and>
   (\<exists>s'. ui_run now (delete_all_events s) s = Inr s' \<and> submitted_data (app s') = [])"
  unfolding delete_all_events_def by (rule run_delete_first) (rule refl)

text \<open>C11. From every state the user can store any row that passes validation: selecting
  its type, typing its values into the type's fields in order (a select offering the
  value) and submitting is a run of enabled events, and it stores exactly that row,
  appended, or written over the edited row in edit mode, and leaves edit mode.\<close>

theorem can_store_valid_record:
  assumes "lookup_schema t = Some fs" and "length vs = length fs"
    and "list_all2 (\<lambda>f v. validate_field now (fname f) (Some v) = None \<and>
                          (ftype f = Dropdown \<longrightarrow> v \<in> set (select_values f))) fs vs"
  shows "run_enabled now (entry_events t fs vs) s \<and>
         (\<exists>s'. ui_run now (entry_events t fs vs) s = Inr s' \<and> app_edit (app s') = None \<and>
               submitted_data (app s') =
                 (let r = \<lparr>rec_type = t, rec_data = zip (map fname fs) vs\<rparr> in
                  case app_edit (app s) of
                    None \<Rightarrow> submitted_data (app s) @ [r]
                  | Some e \<Rightarrow> (submitted_data (app s))[edit_index e := r]))"
proof -
  let ?s1 = "s\<lparr>form := (form s)\<lparr>form_type := t, form_fields := fs, form_data := [], errors := [], progress := Num 0\<rparr>\<rparr>"
  have st1: "ui_step now (Select_type t) s = Inr (None, ?s1)"
    using assms(1) by (simp add: ui_step_def handle_dropdown_change_def)
  have en1: "ui_enabled s (Select_type t)"
    using assms(1) lookup_schema_Some_iff by (auto simp: ui_enabled_def)
  have dist: "distinct (map fname fs)"
    using lookup_schema_ok [OF assms(1)] by (simp add: schema_ok_def field_names_def)
  have sel: "list_all2 (\<lambda>f v. ftype f = Dropdown \<longrightarrow> v \<in> set (select_values f)) fs vs"
    using assms(3) by (rule list_all2_mono) simp
  obtain s2 where r2: "run_enabled now (map2 Type_in fs vs) ?s1" "ui_run now (map2 Type_in fs vs) ?s1 = Inr s2"
    and s2: "app s2 = app s" "form_fields (form s2) = fs" "form_type (form s2) = t"
      "form_data (form s2) = zip (map fname fs) vs"
    using run_typing [OF assms(2), of ?s1 now] dist sel by auto
  have valid: "\<forall>f\<in>set (form_fields (form s2)). validate_field now (fname f) (obj_get (form_data (form s2)) (fname f)) = None"
    using zip_valid [OF assms(2) dist] assms(3) s2 by (simp add: list_all2_conv_all_nth)
  have ne: "\<not> is_empty_form (form_fields (form s2)) (form_data (form s2))"
    using valid_record_not_empty [OF assms(1)] valid s2 by simp
  have run: "ui_run now (entry_events t fs vs) s = ui_run now [Submit] s2"
    and en: "run_enabled now (entry_events t fs vs) s = run_enabled now [Submit] s2"
    using st1 en1 r2 by (simp_all add: entry_events_def ui_run_append run_enabled_append)
  show ?thesis
    using ui_step_submit_valid [OF ne valid] s2 unfolding run en
    by (cases "app_edit (app s)") (auto simp: ui_enabled_def Let_def)
qed

end
