(* ===== verification/SessionSpec.thy ===== *)
theory SessionSpec
  imports Ui
begin

text \<open>
  The form session as the specification describes it (section 4.3 and 6 of the design):
  a state machine with the phases \<open>Idle\<close> (no form shown) and \<open>Editing\<close> a form type,
  the current values, and the edit context; the operations \<open>selectType\<close>,
  \<open>changeField\<close>, \<open>submit\<close> and \<open>loadForEdit\<close>; and the outcomes the engine reports
  to its host: \<open>Created(record)\<close>, \<open>Updated(index, record)\<close>, \<open>EmptySubmission\<close>,
  \<open>ValidationFailed(errors)\<close> and \<open>UnknownFormType\<close>. The machine is the inductive
  relation \<open>session_step\<close>, executable through \<open>code_pred\<close>; errors are the
  specification's, computed with the validator of theory \<open>Validator\<close> in the order of
  the schema.

  The page refines this machine: \<open>abs_session\<close> reads the specified state off the
  page (no rendered fields is \<open>Idle\<close>, otherwise the form's type is being edited),
  \<open>session_op_of\<close> reads the operation an event performs (a delete is no session
  operation), and \<open>session_outcome_of\<close> reads the outcome of a submit from what
  \<open>handleSubmit\<close> decided and whether \<open>editData\<close> was set. The specification's
  \<open>reset\<close> has no counterpart in the code and is not part of the machine.
\<close>

datatype phase = Idle | Editing string

record session =
  ses_phase :: phase
  ses_values :: "string js_object"
  ses_edit :: "nat option"

datatype session_op = SelectType string | ChangeField string string | SubmitOp | LoadForEdit nat form_record

datatype session_outcome =
    Created form_record
  | Updated nat form_record
  | EmptySubmission
  | ValidationFailed "string js_object"
  | UnknownFormType

definition init_session :: session where
  "init_session = \<lparr>ses_phase = Idle, ses_values = [], ses_edit = None\<rparr>"

definition phase_fields :: "phase \<Rightarrow> field_descriptor list" where
  "phase_fields p = (case p of Idle \<Rightarrow> [] | Editing t \<Rightarrow> (case lookup_schema t of None \<Rightarrow> [] | Some fs \<Rightarrow> fs))"

definition spec_errors :: "int \<Rightarrow> field_descriptor list \<Rightarrow> string js_object \<Rightarrow> string js_object" where
  "spec_errors now fs vs =
     List.map_filter (\<lambda>f. map_option (\<lambda>e. (fname f, e)) (validate_field now (fname f) (obj_get vs (fname f)))) fs"

definition all_blank :: "field_descriptor list \<Rightarrow> string js_object \<Rightarrow> bool" where
  "all_blank fs vs \<longleftrightarrow> list_all (\<lambda>f. case obj_get vs (fname f) of None \<Rightarrow> True | Some v \<Rightarrow> js_trim v = []) fs"

text \<open>One rule per operation and outcome; the clock \<open>now\<close> is the validator's.\<close>

inductive session_step :: "int \<Rightarrow> session \<Rightarrow> session_op \<Rightarrow> session_outcome option \<Rightarrow> session \<Rightarrow> bool" where
  select: "lookup_schema t \<noteq> None \<Longrightarrow>
    session_step now S (SelectType t) None (S\<lparr>ses_phase := Editing t, ses_values := []\<rparr>)"
| select_unknown: "lookup_schema t = None \<Longrightarrow> session_step now S (SelectType t) (Some UnknownFormType) S"
| change: "ses_phase S = Editing t \<Longrightarrow> n \<in> set (field_names (phase_fields (ses_phase S))) \<Longrightarrow>
    session_step now S (ChangeField n v) None (S\<lparr>ses_values := obj_set (ses_values S) n v\<rparr>)"
| submit_empty: "all_blank (phase_fields (ses_phase S)) (ses_values S) \<Longrightarrow>
    session_step now S SubmitOp (Some EmptySubmission) S"
| submit_invalid: "\<not> all_blank (phase_fields (ses_phase S)) (ses_values S) \<Longrightarrow>
    spec_errors now (phase_fields (ses_phase S)) (ses_values S) = es \<Longrightarrow> es \<noteq> [] \<Longrightarrow>
    session_step now S SubmitOp (Some (ValidationFailed es)) S"
| submit_ok: "ses_phase S = Editing t \<Longrightarrow> \<not> all_blank (phase_fields (ses_phase S)) (ses_values S) \<Longrightarrow>
    spec_errors now (phase_fields (ses_phase S)) (ses_values S) = [] \<Longrightarrow>
    r = \<lparr>rec_type = t, rec_data = ses_values S\<rparr> \<Longrightarrow>
    session_step now S SubmitOp (Some (case ses_edit S of None \<Rightarrow> Created r | Some i \<Rightarrow> Updated i r))
      init_session"
| load: "lookup_schema (rec_type r) \<noteq> None \<Longrightarrow>
    session_step now S (LoadForEdit i r) None
      (S\<lparr>ses_phase := Editing (rec_type r), ses_values := rec_data r, ses_edit := Some i\<rparr>)"
| load_unknown: "lookup_schema (rec_type r) = None \<Longrightarrow>
    session_step now S (LoadForEdit i r) (Some UnknownFormType) S"

code_pred session_step .

inductive session_reach :: "session \<Rightarrow> bool" where
  init: "session_reach init_session"
| step: "session_reach S \<Longrightarrow> session_step now S op out S' \<Longrightarrow> session_reach S'"

definition abs_session :: "ui_state \<Rightarrow> session" where
  "abs_session s =
     \<lparr>ses_phase = (if form_fields (form s) = [] then Idle else Editing (form_type (form s))),
      ses_values = form_data (form s), ses_edit = map_option edit_index (app_edit (app s))\<rparr>"

definition session_op_of :: "ui_event \<Rightarrow> ui_state \<Rightarrow> session_op option" where
  "session_op_of ev s =
     (case ev of
       Select_type k \<Rightarrow> Some (SelectType k)
     | Type_in f v \<Rightarrow> Some (ChangeField (fname f) v)
     | Submit \<Rightarrow> Some SubmitOp
     | Edit_click i \<Rightarrow> Some (LoadForEdit i (submitted_data (app s) ! i))
     | Delete_click c i \<Rightarrow> None)"

definition session_outcome_of :: "int \<Rightarrow> ui_event \<Rightarrow> ui_state \<Rightarrow> session_outcome option" where
  "session_outcome_of now ev s =
     (case ev of
       Submit \<Rightarrow>
         (case snd (fst (handle_submit now (app_edit (app s) \<noteq> None) (form s))) of
           Rejected_empty \<Rightarrow> Some EmptySubmission
         | Rejected_invalid ve \<Rightarrow> Some (ValidationFailed ve)
         | Submitted r \<Rightarrow> Some (case app_edit (app s) of None \<Rightarrow> Created r | Some e \<Rightarrow> Updated (edit_index e) r))
     | _ \<Rightarrow> None)"

subsection \<open>The specified machine\<close>

text \<open>In the specified machine the \<open>Idle\<close> phase holds no values and only registered
  types are edited.\<close>

lemma session_reach_ok:
  "session_reach S \<Longrightarrow>
     (ses_phase S = Idle \<longrightarrow> ses_values S = []) \<and> (\<forall>t. ses_phase S = Editing t \<longrightarrow> lookup_schema t \<noteq> None)"
  by (induction rule: session_reach.induct) (auto simp: init_session_def elim: session_step.cases)

subsection \<open>Simulation, one event at a time\<close>

text \<open>The submit's error object is the specification's error list: the schema's names
  are distinct, so each failing field is appended once, in schema order.\<close>

lemma collect_errors_spec:
  "distinct (map fname fs) \<Longrightarrow> set (map fname fs) \<inter> set (obj_keys ve) = {} \<Longrightarrow>
     collect_errors now d fs ve = ve @ spec_errors now fs d"
proof (induction fs arbitrary: ve)
  case Nil
  then show ?case by (simp add: spec_errors_def map_filter_simps)
next
  case (Cons f fs)
  show ?case
  proof (cases "validate_field now (fname f) (obj_get d (fname f))")
    case None
    then show ?thesis using Cons by (simp add: spec_errors_def map_filter_simps)
  next
    case (Some e)
    have "obj_set ve (fname f) e = ve @ [(fname f, e)]"
      using Cons.prems(2) by (intro obj_set_new) auto
    moreover have "e \<noteq> []" using Some by (rule validate_field_msg_nonempty)
    moreover have "collect_errors now d fs (ve @ [(fname f, e)]) = (ve @ [(fname f, e)]) @ spec_errors now fs d"
      using Cons.prems by (intro Cons.IH) (auto simp: obj_keys_def)
    ultimately show ?thesis using Some by (simp add: spec_errors_def map_filter_simps)
  qed
qed

lemma lookup_schema_non_empty: "lookup_schema t = Some fs \<Longrightarrow> fs \<noteq> []"
  using lookup_schema_cases [of t fs] by (auto simp: catalog_defs obj_get_def)

lemma phase_fields_abs:
  "form_ok (form s) \<Longrightarrow> phase_fields (ses_phase (abs_session s)) = form_fields (form s)"
  by (auto simp: phase_fields_def abs_session_def form_ok_def)

lemma sim_select:
  assumes "ui_enabled s (Select_type k)" and "ui_step now (Select_type k) s = Inr (t, s')"
  shows "session_step now (abs_session s) (SelectType k) None (abs_session s')"
proof -
  obtain fs where fs: "lookup_schema k = Some fs"
    using assms(1) lookup_schema_Some_iff by (auto simp: ui_enabled_def)
  then have "abs_session s' = (abs_session s)\<lparr>ses_phase := Editing k, ses_values := []\<rparr>"
    using assms(2) lookup_schema_non_empty [OF fs]
    by (auto simp: ui_step_def handle_dropdown_change_def abs_session_def)
  then show ?thesis using fs by (simp add: session_step.select)
qed

lemma sim_type:
  assumes "form_ok (form s)" and "ui_enabled s (Type_in f v)" and "ui_step now (Type_in f v) s = Inr (t, s')"
  shows "session_step now (abs_session s) (ChangeField (fname f) v) None (abs_session s')"
proof -
  have f: "f \<in> set (form_fields (form s))" using assms(2) by (simp add: ui_enabled_def)
  then have ne: "form_fields (form s) \<noteq> []" by auto
  have eq: "abs_session s' = (abs_session s)\<lparr>ses_values := obj_set (ses_values (abs_session s)) (fname f) v\<rparr>"
    using assms(3) by (auto simp: ui_step_def handle_change_def Let_def abs_session_def)
  have ph: "ses_phase (abs_session s) = Editing (form_type (form s))"
    using ne by (simp add: abs_session_def)
  have "fname f \<in> set (field_names (phase_fields (ses_phase (abs_session s))))"
    using f phase_fields_abs [OF assms(1)] by (simp add: field_names_def)
  then show ?thesis unfolding eq by (rule session_step.change [OF ph])
qed

lemma all_blank_is_empty_form: "all_blank fs vs \<longleftrightarrow> is_empty_form fs vs"
  by (simp add: all_blank_def is_empty_form_def trim_truthy_def list_all_iff split: option.split)

lemma spec_errors_Nil_iff:
  "spec_errors now fs d = [] \<longleftrightarrow> (\<forall>f\<in>set fs. validate_field now (fname f) (obj_get d (fname f)) = None)"
  by (auto simp: spec_errors_def map_filter_def filter_empty_conv)

lemma form_ok_distinct: "form_ok f \<Longrightarrow> distinct (map fname (form_fields f))"
  by (auto simp: form_ok_def dest!: lookup_schema_ok simp: schema_ok_def field_names_def)

lemma sim_submit:
  assumes "ui_inv s" and "ui_step now Submit s = Inr (t, s')"
  shows "session_step now (abs_session s) SubmitOp (session_outcome_of now Submit s) (abs_session s')"
proof -
  let ?f = "form s" and ?ed = "app_edit (app s) \<noteq> None"
  have ok: "form_ok ?f" using assms(1) by (simp add: ui_inv_def)
  have pf: "phase_fields (ses_phase (abs_session s)) = form_fields ?f" by (rule phase_fields_abs [OF ok])
  have vals: "ses_values (abs_session s) = form_data ?f" by (simp add: abs_session_def)
  have ce: "collect_errors now (form_data ?f) (form_fields ?f) [] = spec_errors now (form_fields ?f) (form_data ?f)"
    using collect_errors_spec [OF form_ok_distinct [OF ok]] by simp
  consider (e) "is_empty_form (form_fields ?f) (form_data ?f)"
    | (i) "\<not> is_empty_form (form_fields ?f) (form_data ?f)" "spec_errors now (form_fields ?f) (form_data ?f) \<noteq> []"
    | (v) "\<not> is_empty_form (form_fields ?f) (form_data ?f)" "spec_errors now (form_fields ?f) (form_data ?f) = []"
    by blast
  then show ?thesis
  proof cases
    case e
    then have "abs_session s' = abs_session s" and "session_outcome_of now Submit s = Some EmptySubmission"
      using assms(2) handle_submit_empty [OF e] by (auto simp: ui_step_def session_outcome_of_def abs_session_def)
    then show ?thesis using e pf vals by (simp add: session_step.submit_empty all_blank_is_empty_form)
  next
    case i
    have hs: "handle_submit now ?ed ?f = ((Toast_error ''Please fix validation errors before submitting.'',
       Rejected_invalid (spec_errors now (form_fields ?f) (form_data ?f))),
       ?f\<lparr>errors := map (\<lambda>(k, e). (k, Some e)) (spec_errors now (form_fields ?f) (form_data ?f))\<rparr>)"
      using handle_submit_invalid [OF i(1), of now] i(2) ce by simp
    then have "abs_session s' = abs_session s"
      and "session_outcome_of now Submit s = Some (ValidationFailed (spec_errors now (form_fields ?f) (form_data ?f)))"
      using assms(2) by (auto simp: ui_step_def session_outcome_of_def abs_session_def)
    then show ?thesis using i pf vals
      by (simp add: session_step.submit_invalid all_blank_is_empty_form)
  next
    case v
    let ?r = "\<lparr>rec_type = form_type ?f, rec_data = form_data ?f\<rparr>"
    have ne: "form_fields ?f \<noteq> []" using v(1) by auto
    have hs: "handle_submit now ?ed ?f = ((Toast_success (if ?ed then ''Changes saved successfully!'' else ''Form submitted successfully!''),
       Submitted ?r), ?f\<lparr>form_data := [], form_fields := [], progress := Num 0\<rparr>)"
      using handle_submit_valid [OF v(1)] v(2) spec_errors_Nil_iff by blast
    then have "abs_session s' = init_session"
      and "session_outcome_of now Submit s =
             Some (case ses_edit (abs_session s) of None \<Rightarrow> Created ?r | Some i \<Rightarrow> Updated i ?r)"
      using assms(2) by (auto simp: ui_step_def session_outcome_of_def abs_session_def init_session_def
          handle_form_submit_def split: option.splits)
    moreover have "ses_phase (abs_session s) = Editing (form_type ?f)" using ne by (simp add: abs_session_def)
    ultimately show ?thesis using v pf vals
      by (simp add: session_step.submit_ok all_blank_is_empty_form)
  qed
qed

lemma sim_edit:
  assumes "ui_inv s" and "ui_enabled s (Edit_click i)" and "ui_step now (Edit_click i) s = Inr (t, s')"
  shows "session_step now (abs_session s) (LoadForEdit i (submitted_data (app s) ! i)) None (abs_session s')"
proof -
  let ?r = "submitted_data (app s) ! i"
  have i: "i < length (submitted_data (app s))" using assms(2) by (simp add: ui_enabled_def)
  then have "record_ok ?r" using assms(1) by (simp add: ui_inv_def list_all_length)
  then obtain fs where fs: "lookup_schema (rec_type ?r) = Some fs" by (auto simp: record_ok_def split: option.splits)
  have "abs_session s' =
          (abs_session s)\<lparr>ses_phase := Editing (rec_type ?r), ses_values := rec_data ?r, ses_edit := Some i\<rparr>"
    using assms(3) i fs lookup_schema_non_empty [OF fs]
    by (auto simp: ui_step_def handle_edit_click_def handle_edit_def load_edit_def abs_session_def Let_def)
  then show ?thesis using fs by (simp add: session_step.load)
qed

lemma sim_delete:
  "ui_step now (Delete_click c i) s = Inr (t, s') \<Longrightarrow> abs_session s' = abs_session s"
  by (auto simp: ui_step_def handle_delete_click_def handle_delete_def abs_session_def split: if_splits)

lemma session_sim:
  assumes "ui_inv s" and "ui_enabled s ev" and "ui_step now ev s = Inr (t, s')"
  shows "case session_op_of ev s of
           None \<Rightarrow> abs_session s' = abs_session s
         | Some op \<Rightarrow> session_step now (abs_session s) op (session_outcome_of now ev s) (abs_session s')"
proof (cases ev)
  case (Select_type k)
  then show ?thesis using sim_select assms(2,3) by (simp add: session_op_of_def session_outcome_of_def)
next
  case (Type_in f v)
  then show ?thesis using sim_type assms by (simp add: session_op_of_def session_outcome_of_def ui_inv_def)
next
  case Submit
  then show ?thesis using sim_submit assms(1,3) by (simp add: session_op_of_def)
next
  case (Edit_click i)
  then show ?thesis using sim_edit assms by (simp add: session_op_of_def session_outcome_of_def)
next
  case (Delete_click c i)
  then show ?thesis using sim_delete assms(3) by (simp add: session_op_of_def)
qed

lemma abs_session_init: "abs_session init_ui = init_session"
  by (simp add: abs_session_def init_ui_def init_form_def init_app_def init_session_def)

lemma reachable_session_reach: "reachable s \<Longrightarrow> session_reach (abs_session s)"
proof (induction rule: reachable.induct)
  case init
  then show ?case by (simp add: abs_session_init session_reach.init)
next
  case (step s ev now t s')
  have "case session_op_of ev s of
          None \<Rightarrow> abs_session s' = abs_session s
        | Some op \<Rightarrow> session_step now (abs_session s) op (session_outcome_of now ev s) (abs_session s')"
    using session_sim [OF reachable_inv [OF step.hyps(1)] step.hyps(2,3)] .
  then show ?case using step.IH by (auto intro: session_reach.step split: option.splits)
qed

text \<open>The specified machine's invariant carries over to the page: a form that shows no
  fields holds no values, and a form that shows fields edits a registered type.\<close>

lemma reachable_phase_ok:
  assumes "reachable s"
  shows "(form_fields (form s) = [] \<longrightarrow> form_data (form s) = []) \<and>
         (form_fields (form s) \<noteq> [] \<longrightarrow> lookup_schema (form_type (form s)) \<noteq> None)"
  using session_reach_ok [OF reachable_session_reach [OF assms]] by (simp add: abs_session_def)

subsection \<open>Refinement\<close>

text \<open>C4. The page refines the specified form session: every enabled step of a reachable
  page either performs no session operation and leaves the specified state alone (a
  delete), or is a step of the specified machine from the abstraction of the old state
  to that of the new one, with the outcome the page reports (created, updated at the
  edit index, empty, or failed with the specification's error list); the abstraction of
  every reachable page is reachable in the specified machine.\<close>

theorem session_refinement:
  assumes "reachable s" and "ui_enabled s ev" and "ui_step now ev s = Inr (t, s')"
  shows "(case session_op_of ev s of
            None \<Rightarrow> abs_session s' = abs_session s
          | Some op \<Rightarrow> session_step now (abs_session s) op (session_outcome_of now ev s) (abs_session s')) \<and>
         session_reach (abs_session s')"
  using session_sim [OF reachable_inv [OF assms(1)] assms(2,3)] reachable_session_reach [OF reachable.step [OF assms]]
  by blast

theorem session_refinement_witness:
  "session_step 0 init_session SubmitOp (Some EmptySubmission) init_session"
proof -
  have st: "ui_step 0 Submit init_ui =
              Inr (Some (Toast_error ''Cannot submit an empty form. Please fill out the required fields.''), init_ui)"
    by (simp add: ui_step_def init_ui_def init_form_def handle_submit_def)
  have oc: "session_outcome_of 0 Submit init_ui = Some EmptySubmission"
    by (simp add: session_outcome_of_def init_ui_def init_form_def handle_submit_def)
  show ?thesis
    using session_refinement [OF reachable.init _ st]
    by (simp add: ui_enabled_def session_op_of_def oc abs_session_init)
qed

end
