(* ===== verification/Spec2Isabelle.thy ===== *)
theory Spec2Isabelle
  imports FormView StoreSpec Liveness SessionSpec
begin

text \<open>
  \<^bold>\<open>A verification library for the DynamicForms repository.\<close>

  The program is a React page (\<open>src/src/App.jsx\<close>,
  \<open>src/src/components/DynamicForm.jsx\<close>, \<open>src/src/components/DataTable.jsx\<close>): the user
  picks a form type from a fixed catalog, fills in the fields the catalog lists, which are
  validated on every keystroke and again on submit, and a valid submission becomes a row
  of an in-memory table whose rows can be edited and deleted. There is no persistence,
  network or concurrency; every user event runs to completion before the next.

  \<^bold>\<open>Parts and theories.\<close> Each theory models one part; definitions keep the source's
  names in snake case.
  \<^item> \<open>Prelude\<close>: JavaScript objects as insertion-ordered association lists
    (\<open>obj_get\<close>, \<open>obj_set\<close> for \<open>{...o, [k]: v}\<close>, \<open>obj_keys\<close>), \<open>trim\<close>, the
    truthiness tests \<open>!value\<close> (\<open>js_falsy\<close>) and \<open>value?.trim()\<close>
    (\<open>trim_truthy\<close>), ASCII digits, and the shared list lemmas.
  \<^item> \<open>JsNumber\<close>: the language's \<open>ToNumber\<close> on strings (\<open>str_to_number\<close>, after
    ECMA-262 StringNumericLiteral), the comparisons \<open><\<close> and \<open><=\<close> with NaN, and
    \<open>/\<close>, \<open>*\<close> for the progress. Finite numbers are exact rationals (no binary64
    rounding, no signed zero).
  \<^item> \<open>JsDate\<close>: \<open>new Date(value)\<close> on the ECMA-262 Date Time String Format
    (\<open>date_parse\<close>): date-only forms as UTC, date-time forms with \<open>Z\<close> or a
    \<open>+HH:mm\<close>/\<open>-HH:mm\<close> offset, or as local time, expanded years, and \<open>TimeClip\<close>,
    with the standard's \<open>DayFromYear\<close>, \<open>MakeDay\<close> and \<open>MakeTime\<close>. Strings outside
    the format, which the standard leaves to implementation heuristics, parse to NaN.
    The clock \<open>new Date()\<close> is a parameter \<open>now\<close> (ms).
  \<^item> \<open>JsString\<close>: the string built-ins of the label formatting: \<open>replace\<close> with a
    regular expression as the specification's loop of \<open>RegExpExec\<close> calls over a
    matcher (\<open>exec_all\<close>, a \<open>partial_function (option)\<close>, and \<open>splice\<close>), the
    matchers of \<open>/([A-Z])/g\<close> and \<open>/^./\<close>, \<open>toUpperCase\<close>, and the key order of
    \<open>Object.entries\<close>. The closed forms \<open>space_caps\<close> and \<open>upper_first\<close> are proved
    equal to these replacements and are what the views use.
  \<^item> \<open>Catalog\<close>: \<open>apiResponses\<close> (\<open>DynamicForm.jsx\<close> 40--58) as \<open>api_responses\<close>,
    with \<open>lookup_schema\<close> for \<open>apiResponses[type]\<close>.
  \<^item> \<open>Validator\<close>: \<open>validateField\<close> (8--31) as \<open>validate_field now key value\<close>.
  \<^item> \<open>FormSession\<close>: the state of \<open>DynamicForm\<close> (34--38) as the record
    \<open>form_state\<close> and its handlers \<open>handleDropdownChange\<close>, \<open>handleChange\<close>,
    \<open>handleSubmit\<close> and the \<open>editData\<close> effect as \<open>handle_dropdown_change\<close>,
    \<open>handle_change\<close>, \<open>handle_submit\<close> and \<open>load_edit\<close>; the submit returns the toast
    it shows and what it passes to \<open>onSubmit\<close>.
  \<^item> \<open>RecordStore\<close>: the state of \<open>App\<close> (\<open>submittedData\<close>, \<open>editData\<close>) and
    \<open>handleFormSubmit\<close>, \<open>handleEdit\<close>, \<open>handleDelete\<close>, with the click handlers of
    \<open>DataTable\<close>.
  \<^item> \<open>Ui\<close>: the composition, one \<open>ui_step\<close> per user event, the events the page
    offers (\<open>ui_enabled\<close>), the reachable states (\<open>reachable\<close>, an inductive
    predicate), runs of events (\<open>ui_run\<close>, \<open>run_enabled\<close>) and the invariant \<open>ui_inv\<close>.
  \<^item> \<open>TableView\<close>: what \<open>DataTable\<close> renders (lines 29--59) and when \<open>App\<close> shows it
    (45--47): a heading per row, the formatted key and value of each entry, and the
    Edit and Delete buttons of each row, bound to the row's index (\<open>data_table\<close>).
  \<^item> \<open>FormView\<close>: what \<open>DynamicForm\<close> renders (128--184): menu, labels, selects and
    inputs with their values, error lines, progress value and button label; and the
    invariant \<open>sel_inv\<close> on the values a select may hold.
  \<^item> \<open>StoreSpec\<close>: the specification's record store (\<open>append\<close>, \<open>replaceAt\<close>,
    \<open>removeAt\<close> with \<open>IndexOutOfRange\<close>) and the mapping \<open>store_op_of\<close> from page
    events to its operations.
  \<^item> \<open>SessionSpec\<close>: the specification's form session as an inductive state machine
    (\<open>session_step\<close>: phases \<open>Idle\<close> and \<open>Editing\<close>, operations \<open>selectType\<close>,
    \<open>changeField\<close>, \<open>submit\<close>, \<open>loadForEdit\<close>, outcomes \<open>Created\<close>, \<open>Updated\<close>,
    \<open>EmptySubmission\<close>, \<open>ValidationFailed\<close>, \<open>UnknownFormType\<close>) and the abstraction
    \<open>abs_session\<close> of page states to its states.
  \<^item> \<open>Liveness\<close>: runs that reach a goal from every state.

  \<^bold>\<open>What is proved.\<close> In every reachable state every stored row has a registered type,
  exactly that type's field names and no empty value (C1); no offered event makes a
  handler throw (C2), and the page renders with every select holding one of its options
  (C12); the buttons shown with a row act on that row (C13); the progress is a number
  from 0 to 100 (C21); each table row has a heading and distinct labels (C23). The page
  refines the two specified components: the record store (C3), each step being one
  store operation on a well-formed row or none, with a single divergence at an index the
  store would reject; and the form session (C4), each step being a step of the specified
  state machine with the outcome the page reports. A valid submission appends a row or
  replaces the edited one (C5), an empty one changes nothing (C6), an invalid one reports
  the failing fields (C7) and shows each message under its field (C22); editing a row and
  submitting it unchanged leaves the store as it was, as long as the row still validates
  (C8). From every state the user can store any valid row (C11) and empty the table
  (C24). The validator's rules are characterised one by one (C14--C19, C29), the
  progress computation (C20, C25), the error collection (C26), the index-based store
  updates against list operations (C30, C32), the regular-expression replacement of the
  labels against its closed form (C31), and the order of a row's fields (C33). The
  invariants are proved by rule induction over \<open>reachable\<close> with one lemma per event
  (\<open>inv_select\<close> \<dots> \<open>inv_delete\<close>, \<open>sel_select\<close> \<dots> \<open>sel_delete\<close>,
  \<open>sim_select\<close> \<dots> \<open>sim_delete\<close> for the simulation). Evaluated runs on concrete
  events (the specification's create and delete scenarios, \<open>create_delete_scenario\<close>)
  serve as examples and as the witnesses of the general theorems.

  \<^bold>\<open>Findings.\<close> Edit and delete address rows by position and a delete does not adjust
  the edit context: whenever a row before the edited one is deleted, a submit overwrites
  the row that followed the edited one (C9), or, when the edited row was the last,
  loses the edit behind a success toast where the specified store would fail (C10).
  Selecting another type while editing keeps edit mode, so the new form's row replaces
  the edited one (C11). Loading a row for editing keeps the previous progress and errors
  (C27). A whitespace-only value passes the required check although progress and the
  empty check treat it as blank (C28). Non-numeric ages and unparsable expiry strings
  are accepted (C29). A schema without required fields would make the progress NaN
  (C25; the shipped catalog has none). Indices out of range are silently ignored (C32).
  The table orders a row's values by typing order (C33) and labels \<open>cvv\<close> as
  \<open>Cvv\<close> (\<open>TableView.table_labels_vs_form_labels\<close>); the menu shows \<open>user Info\<close>
  (\<open>FormView.menu_labels\<close>). The specification's \<open>UnknownFormType\<close> has no
  counterpart: an unknown type would make the next render throw, which C2 shows the page
  never offers, and C4 shows the page never reports it. The specification's \<open>reset\<close> of
  the form session has no counterpart in the code, and after a successful submit the
  form keeps its type although the session is idle (C4).

  \<^bold>\<open>Not modelled.\<close> Markup structure, styling and images; the conversion of the
  progress number to the CSS width string; the toast library and \<open>window.confirm\<close>
  (each toast a handler shows is part of its result, and the confirm answer is a
  parameter of the delete click); \<open>Header\<close> and \<open>Footer\<close> (not in the
  repository). Characters are 8-bit code units, so \<open>trim\<close> removes only the white
  space below 0x100, and \<open>toUpperCase\<close> of the micro sign and of y with diaeresis, whose upper cases lie
  above 0xFF, is not modelled. The host's time zone (\<open>LocalTZA\<close>), which the standard
  leaves to the implementation and which only date-time strings without an offset use,
  is fixed to UTC (\<open>local_tza\<close>). The browser's sanitising of number and date inputs is
  over-approximated: any string may be typed into a non-select field. No fuel or bound is
  needed: every definition but \<open>exec_all\<close> is total and structurally recursive;
  \<open>exec_all\<close> returns for every matcher that keeps the contract of
  \<open>RegExpBuiltinExec\<close> (\<open>JsString.regexp_replace_terminates\<close>), which the label
  matchers do (\<open>JsString.caps_match_ok\<close>); the runs of the liveness properties have the
  length of the store or of the schema.
\<close>


subsection \<open>Scenarios\<close>

definition user_info_events :: "string \<Rightarrow> string \<Rightarrow> string \<Rightarrow> ui_event list" where
  "user_info_events gn sn a =
     [Select_type ''userInfo'', Type_in (field ''firstName'' Text ''First Name'') gn,
      Type_in (field ''lastName'' Text ''Last Name'') sn, Type_in (field ''age'' Number ''Age'') a, Submit]"

definition user_info :: "string \<Rightarrow> string \<Rightarrow> string \<Rightarrow> form_record" where
  "user_info gn sn a = \<lparr>rec_type = ''userInfo'', rec_data = [(''firstName'', gn), (''lastName'', sn), (''age'', a)]\<rparr>"

definition s_ann :: ui_state where
  "s_ann = \<lparr>app = \<lparr>submitted_data = [user_info ''Ann'' ''Lee'' ''30''], app_edit = None\<rparr>,
            form = \<lparr>form_fields = [], form_data = [],
                    errors = [(''firstName'', None), (''lastName'', None), (''age'', None)],
                    form_type = ''userInfo'', progress = Num 0\<rparr>\<rparr>"

definition s_typed :: ui_state where
  "s_typed = \<lparr>app = init_app,
              form = \<lparr>form_fields = the (lookup_schema ''userInfo''),
                      form_data = [(''firstName'', ''Ann''), (''lastName'', ''Lee''), (''age'', ''30'')],
                      errors = [(''firstName'', None), (''lastName'', None), (''age'', None)],
                      form_type = ''userInfo'', progress = Num 100\<rparr>\<rparr>"

text \<open>The state a run from the initial page reaches (the initial page if it throws), and
  three stored rows.\<close>

definition run_state :: "ui_event list \<Rightarrow> ui_state" where
  "run_state es = (case ui_run 0 es init_ui of Inr s \<Rightarrow> s | Inl e \<Rightarrow> init_ui)"

definition three_rows_events :: "ui_event list" where
  "three_rows_events =
     user_info_events ''Ann'' ''Lee'' ''30'' @ user_info_events ''Bob'' ''Ray'' ''40'' @
     user_info_events ''Cy'' ''Fox'' ''50''"

text \<open>A session that selects \<open>userInfo\<close> and types only the first name.\<close>

definition partial_events :: "ui_event list" where
  "partial_events = [Select_type ''userInfo'', Type_in (field ''firstName'' Text ''First Name'') ''Ann'']"

definition s_partial :: ui_state where
  "s_partial = \<lparr>app = init_app,
                form = \<lparr>form_fields = the (lookup_schema ''userInfo''), form_data = [(''firstName'', ''Ann'')],
                        errors = [(''firstName'', None)], form_type = ''userInfo'', progress = Num (100 / 3)\<rparr>\<rparr>"

lemma run_ann:
  "run_enabled 0 (user_info_events ''Ann'' ''Lee'' ''30'') init_ui \<and>
   ui_run 0 (user_info_events ''Ann'' ''Lee'' ''30'') init_ui = Inr s_ann"
  by code_simp

lemma reachable_s_ann: "reachable s_ann"
  using run_enabled_reachable [OF reachable.init] run_ann by blast

lemma run_enabled_Inr: "run_enabled now es s \<Longrightarrow> \<exists>s'. ui_run now es s = Inr s'"
  by (induction es arbitrary: s) (auto split: sum.splits)

lemma reachable_run_state: "run_enabled 0 es init_ui \<Longrightarrow> reachable (run_state es)"
  using run_enabled_Inr [of 0 es init_ui] run_enabled_reachable [OF reachable.init, of 0 es]
  by (auto simp: run_state_def)

lemma reachable_s_partial: "reachable s_partial"
proof -
  have "run_enabled 0 partial_events init_ui \<and> ui_run 0 partial_events init_ui = Inr s_partial"
    by code_simp
  then show ?thesis using run_enabled_reachable [OF reachable.init] by blast
qed

subsection \<open>Properties of the whole page\<close>

text \<open>C1. In every reachable state every stored row has a registered form type, exactly
  the field names of that type's schema (each once), and no empty value.\<close>

theorem reachable_records_ok:
  assumes "reachable s" and "r \<in> set (submitted_data (app s))"
  shows "record_ok r"
  using reachable_inv [OF assms(1)] assms(2) by (simp add: ui_inv_def list_all_iff)

theorem reachable_records_ok_witness:
  "reachable s_ann \<and> user_info ''Ann'' ''Lee'' ''30'' \<in> set (submitted_data (app s_ann)) \<and>
   record_ok (user_info ''Ann'' ''Lee'' ''30'')"
proof -
  have m: "user_info ''Ann'' ''Lee'' ''30'' \<in> set (submitted_data (app s_ann))"
    by (simp add: s_ann_def)
  show ?thesis using reachable_s_ann m reachable_records_ok [OF reachable_s_ann m] by blast
qed

text \<open>C2. No event the page offers in a reachable state makes the page throw: every
  schema lookup the handlers make succeeds.\<close>

theorem reachable_no_crash:
  assumes "reachable s" and "ui_enabled s ev"
  shows "\<exists>r. ui_step now ev s = Inr r"
  using reachable_inv [OF assms(1)] assms(2) by (rule ui_step_total)

theorem reachable_no_crash_witness:
  "reachable init_ui \<and> ui_enabled init_ui (Select_type ''userInfo'') \<and>
   (\<exists>r. ui_step 0 (Select_type ''userInfo'') init_ui = Inr r)"
proof -
  have e: "ui_enabled init_ui (Select_type ''userInfo'')"
    by (simp add: ui_enabled_def catalog_defs obj_keys_def)
  show ?thesis using reachable.init e reachable_no_crash [OF reachable.init e] by blast
qed

text \<open>C5. A non-empty submission whose every rendered field passes its rule is stored:
  appended as a new row, or, in edit mode, written over the row at the edit index (which
  then ends edit mode); the form is cleared and the success toast names the mode.\<close>

theorem submit_stores_record:
  assumes "\<not> is_empty_form (form_fields (form s)) (form_data (form s))"
    and "\<forall>f\<in>set (form_fields (form s)). validate_field now (fname f) (obj_get (form_data (form s)) (fname f)) = None"
  shows "ui_step now Submit s =
    (let r = \<lparr>rec_type = form_type (form s), rec_data = form_data (form s)\<rparr>; xs = submitted_data (app s) in
     Inr (Some (Toast_success (if app_edit (app s) = None then ''Form submitted successfully!''
                               else ''Changes saved successfully!'')),
          \<lparr>app = \<lparr>submitted_data = (case app_edit (app s) of None \<Rightarrow> xs @ [r] | Some e \<Rightarrow> xs[edit_index e := r]),
                   app_edit = None\<rparr>,
           form = (form s)\<lparr>form_data := [], form_fields := [], progress := Num 0\<rparr>\<rparr>))"
  using assms by (rule ui_step_submit_valid)

theorem submit_stores_record_witness:
  "\<not> is_empty_form (form_fields (form s_typed)) (form_data (form s_typed)) \<and>
   list_all (\<lambda>f. validate_field 0 (fname f) (obj_get (form_data (form s_typed)) (fname f)) = None)
     (form_fields (form s_typed)) \<and>
   ui_step 0 Submit s_typed =
     Inr (Some (Toast_success ''Form submitted successfully!''),
          \<lparr>app = \<lparr>submitted_data = [user_info ''Ann'' ''Lee'' ''30''], app_edit = None\<rparr>,
           form = (form s_typed)\<lparr>form_data := [], form_fields := [], progress := Num 0\<rparr>\<rparr>)"
proof -
  have a: "\<not> is_empty_form (form_fields (form s_typed)) (form_data (form s_typed))"
    by code_simp
  have b: "\<forall>f\<in>set (form_fields (form s_typed)).
      validate_field 0 (fname f) (obj_get (form_data (form s_typed)) (fname f)) = None"
    by code_simp
  show ?thesis using a b submit_stores_record [OF a b]
    by (simp add: s_typed_def init_app_def user_info_def Let_def list_all_iff)
qed

text \<open>C6. Submitting a form whose rendered fields are all blank changes nothing, neither
  the form nor the store; only the error toast is shown.\<close>

theorem submit_empty_no_change:
  assumes "is_empty_form (form_fields (form s)) (form_data (form s))"
  shows "ui_step now Submit s =
           Inr (Some (Toast_error ''Cannot submit an empty form. Please fill out the required fields.''), s)"
  using assms by (simp add: ui_step_def handle_submit_empty)

theorem submit_empty_no_change_witness:
  "is_empty_form (form_fields (form init_ui)) (form_data (form init_ui)) \<and>
   ui_step 0 Submit init_ui =
     Inr (Some (Toast_error ''Cannot submit an empty form. Please fill out the required fields.''), init_ui)"
proof -
  have e: "is_empty_form (form_fields (form init_ui)) (form_data (form init_ui))"
    by (simp add: init_ui_def init_form_def)
  show ?thesis using e submit_empty_no_change [OF e] by blast
qed

text \<open>C8. Opening a stored row for editing and submitting it unchanged leaves the store as
  it was and ends edit mode, provided every field of the row still passes its rule at the
  time of the submit (an expiry date may have passed in between).\<close>

theorem edit_resubmit_unchanged:
  assumes "reachable s" and "i < length (submitted_data (app s))"
    and "\<forall>f\<in>set (the (lookup_schema (rec_type (submitted_data (app s) ! i)))).
           validate_field now (fname f) (obj_get (rec_data (submitted_data (app s) ! i)) (fname f)) = None"
  shows "\<exists>s'. run_enabled now [Edit_click i, Submit] s \<and> ui_run now [Edit_click i, Submit] s = Inr s' \<and>
              submitted_data (app s') = submitted_data (app s) \<and> app_edit (app s') = None"
proof -
  let ?xs = "submitted_data (app s)"
  let ?r = "?xs ! i"
  have "record_ok ?r" using reachable_inv [OF assms(1)] assms(2) by (simp add: ui_inv_def list_all_length)
  then obtain fs where fs: "lookup_schema (rec_type ?r) = Some fs"
    by (auto simp: record_ok_def split: option.splits)
  define e where "e = \<lparr>edit_index = i, edit_type = rec_type ?r, edit_data = rec_data ?r\<rparr>"
  define s1 where "s1 = \<lparr>app = (app s)\<lparr>app_edit := Some e\<rparr>,
                         form = (form s)\<lparr>form_type := rec_type ?r, form_fields := fs, form_data := rec_data ?r\<rparr>\<rparr>"
  have st1: "ui_step now (Edit_click i) s = Inr (Some (Toast_info ''You are editing a form.''), s1)"
    using assms(2) fs by (simp add: ui_step_def handle_edit_click_def handle_edit_def load_edit_def
        Let_def s1_def e_def)
  have valid: "\<forall>f\<in>set (form_fields (form s1)). validate_field now (fname f) (obj_get (form_data (form s1)) (fname f)) = None"
    using assms(3) fs by (simp add: s1_def)
  have ne: "\<not> is_empty_form (form_fields (form s1)) (form_data (form s1))"
    using valid_record_not_empty [OF fs] assms(3) fs by (simp add: s1_def)
  define s2 where "s2 = \<lparr>app = \<lparr>submitted_data = ?xs[i := ?r], app_edit = None\<rparr>,
                         form = (form s1)\<lparr>form_data := [], form_fields := [], progress := Num 0\<rparr>\<rparr>"
  have st2: "ui_step now Submit s1 = Inr (Some (Toast_success ''Changes saved successfully!''), s2)"
    using ui_step_submit_valid [OF ne valid] by (simp add: s1_def s2_def e_def form_record_eta Let_def)
  have en: "run_enabled now [Edit_click i, Submit] s"
    using assms(2) st1 st2 by (simp add: ui_enabled_def s1_def)
  have run: "ui_run now [Edit_click i, Submit] s = Inr s2" using st1 st2 by simp
  show ?thesis using en run by (simp add: s2_def)
qed

theorem edit_resubmit_unchanged_witness:
  "reachable s_ann \<and> 0 < length (submitted_data (app s_ann)) \<and>
   list_all (\<lambda>f. validate_field 0 (fname f) (obj_get (rec_data (submitted_data (app s_ann) ! 0)) (fname f)) = None)
     (the (lookup_schema (rec_type (submitted_data (app s_ann) ! 0)))) \<and>
   (\<exists>s'. ui_run 0 [Edit_click 0, Submit] s_ann = Inr s' \<and>
         submitted_data (app s') = [user_info ''Ann'' ''Lee'' ''30''] \<and> app_edit (app s') = None)"
proof -
  have l: "0 < length (submitted_data (app s_ann))" by (simp add: s_ann_def)
  have v: "\<forall>f\<in>set (the (lookup_schema (rec_type (submitted_data (app s_ann) ! 0)))).
      validate_field 0 (fname f) (obj_get (rec_data (submitted_data (app s_ann) ! 0)) (fname f)) = None"
    by code_simp
  show ?thesis using reachable_s_ann l v edit_resubmit_unchanged [OF reachable_s_ann l v]
    by (auto simp: s_ann_def list_all_iff)
qed

text \<open>C9. Edit and delete address rows by position and a delete does not adjust the edit
  context. Whenever the row being edited has a successor and a row before it is deleted
  (confirmed), submitting a valid form writes it over the row that followed the edited
  one, which is lost, while the edited row stays as it was.\<close>

theorem stale_edit_index_overwrites:
  assumes "app_edit (app s) = Some e"
    and "j < edit_index e" and "Suc (edit_index e) < length (submitted_data (app s))"
    and "\<not> is_empty_form (form_fields (form s)) (form_data (form s))"
    and "\<forall>f\<in>set (form_fields (form s)). validate_field now (fname f) (obj_get (form_data (form s)) (fname f)) = None"
  shows "run_enabled now [Delete_click True j, Submit] s \<and>
         (\<exists>s'. ui_run now [Delete_click True j, Submit] s = Inr s' \<and> app_edit (app s') = None \<and>
            submitted_data (app s') =
              remove_at j ((submitted_data (app s))[Suc (edit_index e) :=
                \<lparr>rec_type = form_type (form s), rec_data = form_data (form s)\<rparr>]))"
proof -
  let ?xs = "submitted_data (app s)" and ?r = "\<lparr>rec_type = form_type (form s), rec_data = form_data (form s)\<rparr>"
  let ?s1 = "s\<lparr>app := (app s)\<lparr>submitted_data := remove_at j ?xs\<rparr>\<rparr>"
  have j: "j < length ?xs" using assms(2,3) by simp
  have d: "ui_step now (Delete_click True j) s = Inr (Some (Toast_success ''Form deleted successfully.''), ?s1)"
    by (rule ui_step_delete_confirmed [OF j])
  have sub: "ui_step now Submit ?s1 =
     Inr (Some (Toast_success ''Changes saved successfully!''),
          \<lparr>app = \<lparr>submitted_data = (remove_at j ?xs)[edit_index e := ?r], app_edit = None\<rparr>,
           form = (form s)\<lparr>form_data := [], form_fields := [], progress := Num 0\<rparr>\<rparr>)"
    using ui_step_submit_valid [of ?s1 now] assms(1,4,5) by (simp add: Let_def)
  show ?thesis using d sub j remove_at_update_shift [OF assms(2,3), of ?r]
    by (simp add: ui_enabled_def)
qed

text \<open>C10. A stale edit index can also lose the edit: whenever the last row is being edited
  and a row before it is deleted, submitting a valid form asks the store to replace at an
  index one past its end, which the specified store rejects with \<open>IndexOutOfRange\<close>; the
  page instead shows \<open>Changes saved successfully!\<close>, leaves the rows unchanged and ends
  edit mode.\<close>

theorem lost_edit_after_delete:
  assumes "app_edit (app s) = Some e"
    and "j < edit_index e" and "Suc (edit_index e) = length (submitted_data (app s))"
    and "\<not> is_empty_form (form_fields (form s)) (form_data (form s))"
    and "\<forall>f\<in>set (form_fields (form s)). validate_field now (fname f) (obj_get (form_data (form s)) (fname f)) = None"
  shows "\<exists>t s1 s'. ui_step now (Delete_click True j) s = Inr (t, s1) \<and> ui_enabled s (Delete_click True j) \<and>
           store_op_of now Submit s1 =
             Some (ReplaceAt (edit_index e) \<lparr>rec_type = form_type (form s), rec_data = form_data (form s)\<rparr>) \<and>
           store_apply (the (store_op_of now Submit s1)) (submitted_data (app s1)) = Inl IndexOutOfRange \<and>
           ui_step now Submit s1 = Inr (Some (Toast_success ''Changes saved successfully!''), s') \<and>
           submitted_data (app s') = submitted_data (app s1) \<and>
           submitted_data (app s1) = remove_at j (submitted_data (app s)) \<and> app_edit (app s') = None"
proof -
  let ?xs = "submitted_data (app s)" and ?r = "\<lparr>rec_type = form_type (form s), rec_data = form_data (form s)\<rparr>"
  let ?s1 = "s\<lparr>app := (app s)\<lparr>submitted_data := remove_at j ?xs\<rparr>\<rparr>"
  have j: "j < length ?xs" using assms(2,3) by simp
  have len: "length (remove_at j ?xs) = edit_index e" using j assms(3) by (simp add: remove_at_take_drop)
  have d: "ui_step now (Delete_click True j) s = Inr (Some (Toast_success ''Form deleted successfully.''), ?s1)"
    by (rule ui_step_delete_confirmed [OF j])
  have hs: "snd (fst (handle_submit now True (form s))) = Submitted ?r"
    using handle_submit_valid [OF assms(4,5)] by simp
  have sub: "ui_step now Submit ?s1 =
     Inr (Some (Toast_success ''Changes saved successfully!''),
          \<lparr>app = \<lparr>submitted_data = remove_at j ?xs, app_edit = None\<rparr>,
           form = (form s)\<lparr>form_data := [], form_fields := [], progress := Num 0\<rparr>\<rparr>)"
    using ui_step_submit_valid [of ?s1 now] assms(1,4,5) len by (simp add: Let_def list_update_beyond)
  show ?thesis using d sub j len hs assms(1)
    by (simp add: ui_enabled_def store_op_of_def)
qed

text \<open>C27. Loading a row for editing keeps the progress and the errors of the previous
  session: whenever a stored row fills every field of its schema and the current progress
  is not 100, the form shows the row's data with the old progress, although the progress
  of that data is 100.\<close>

theorem edit_keeps_stale_progress:
  assumes "i < length (submitted_data (app s))"
    and "lookup_schema (rec_type (submitted_data (app s) ! i)) = Some fs"
    and "\<forall>f\<in>set fs. trim_truthy (obj_get (rec_data (submitted_data (app s) ! i)) (fname f))"
    and "progress (form s) \<noteq> Num 100"
  shows "\<exists>t s'. ui_step now (Edit_click i) s = Inr (t, s') \<and>
           form_data (form s') = rec_data (submitted_data (app s) ! i) \<and> form_fields (form s') = fs \<and>
           progress (form s') = progress (form s) \<and> errors (form s') = errors (form s) \<and>
           progress_of (form_fields (form s')) (form_data (form s')) = Num 100"
proof -
  have "filter frequired fs \<noteq> []"
    using schema_required [OF assms(2)] by (cases fs) auto
  then have full: "progress_of fs (rec_data (submitted_data (app s) ! i)) = Num 100"
    using progress_of_full assms(3) by blast
  show ?thesis using assms(1,2) full
    by (simp add: ui_step_def handle_edit_click_def handle_edit_def load_edit_def Let_def)
qed

text \<open>C28. A whitespace-only value passes the required check (\<open>!value\<close> is false for it)
  although the progress and the empty-form check treat it as blank: typing it into any
  rendered non-select field without a rule of its own records no error.\<close>

theorem blank_value_accepted:
  assumes "f \<in> set (form_fields (form s))" and "ftype f \<noteq> Dropdown" and "fname f \<notin> set rule_keys"
    and "v \<noteq> []" and "list_all js_space v"
  shows "ui_enabled s (Type_in f v) \<and>
         (\<exists>s'. ui_step now (Type_in f v) s = Inr (None, s') \<and>
            obj_get (errors (form s')) (fname f) = Some None \<and>
            obj_get (form_data (form s')) (fname f) = Some v \<and>
            \<not> trim_truthy (obj_get (form_data (form s')) (fname f)))"
proof -
  have "validate_field now (fname f) (Some v) = None"
    using assms(3,4) by (auto simp: validate_field_def rule_keys_def)
  moreover have "\<not> trim_truthy (Some v)" using assms(5) by (simp add: trim_truthy_Some list_all_iff)
  ultimately show ?thesis using assms(1,2)
    by (simp add: ui_enabled_def ui_step_def handle_change_def Let_def)
qed

text \<open>The specification's create and delete scenarios (section 8), evaluated: select
  \<open>userInfo\<close>, enter Ann, Lee and 30, submit; the page stores one row with exactly
  these values and shows the creation toast. Deleting row 0 then empties the store; a
  second delete at index 0 is no longer offered, and the store's delete at that index
  changes nothing instead of failing.\<close>

lemma create_delete_scenario:
  "run_enabled 0 (butlast (user_info_events ''Ann'' ''Lee'' ''30'')) init_ui \<and>
   ui_run 0 (butlast (user_info_events ''Ann'' ''Lee'' ''30'')) init_ui = Inr s_typed \<and>
   ui_step 0 Submit s_typed = Inr (Some (Toast_success ''Form submitted successfully!''), s_ann) \<and>
   submitted_data (app s_ann) = [user_info ''Ann'' ''Lee'' ''30''] \<and>
   ui_step 0 (Delete_click True 0) s_ann =
     Inr (Some (Toast_success ''Form deleted successfully.''), s_ann\<lparr>app := \<lparr>submitted_data = [], app_edit = None\<rparr>\<rparr>) \<and>
   \<not> ui_enabled (s_ann\<lparr>app := \<lparr>submitted_data = [], app_edit = None\<rparr>\<rparr>) (Delete_click True 0) \<and>
   handle_delete 0 \<lparr>submitted_data = [], app_edit = None\<rparr> = \<lparr>submitted_data = [], app_edit = None\<rparr>"
  by code_simp

subsection \<open>Witnesses of the component theorems\<close>

theorem stale_edit_index_overwrites_witness:
  "app_edit (app (run_state (three_rows_events @ [Edit_click 1]))) \<noteq> None \<and>
   (0::nat) < edit_index (the (app_edit (app (run_state (three_rows_events @ [Edit_click 1]))))) \<and>
   (\<exists>s'. ui_run 0 [Delete_click True 0, Submit] (run_state (three_rows_events @ [Edit_click 1])) = Inr s' \<and>
      submitted_data (app s') = [user_info ''Bob'' ''Ray'' ''40'', user_info ''Bob'' ''Ray'' ''40''])"
proof -
  let ?s = "run_state (three_rows_events @ [Edit_click 1])"
  have e: "app_edit (app ?s) = Some (the (app_edit (app ?s)))" and j: "0 < edit_index (the (app_edit (app ?s)))"
    and l: "Suc (edit_index (the (app_edit (app ?s)))) < length (submitted_data (app ?s))"
    and ne: "\<not> is_empty_form (form_fields (form ?s)) (form_data (form ?s))"
    and v: "\<forall>f\<in>set (form_fields (form ?s)). validate_field 0 (fname f) (obj_get (form_data (form ?s)) (fname f)) = None"
    and c: "remove_at 0 ((submitted_data (app ?s))[Suc (edit_index (the (app_edit (app ?s)))) :=
              \<lparr>rec_type = form_type (form ?s), rec_data = form_data (form ?s)\<rparr>]) =
            [user_info ''Bob'' ''Ray'' ''40'', user_info ''Bob'' ''Ray'' ''40'']"
    by code_simp+
  show ?thesis using stale_edit_index_overwrites [OF e j l ne v] e j c by auto
qed

theorem lost_edit_after_delete_witness:
  "app_edit (app (run_state (three_rows_events @ [Edit_click 2]))) \<noteq> None \<and>
   (\<exists>t s1 s'. ui_step 0 (Delete_click True 0) (run_state (three_rows_events @ [Edit_click 2])) = Inr (t, s1) \<and>
      store_apply (the (store_op_of 0 Submit s1)) (submitted_data (app s1)) = Inl IndexOutOfRange \<and>
      ui_step 0 Submit s1 = Inr (Some (Toast_success ''Changes saved successfully!''), s') \<and>
      submitted_data (app s') = [user_info ''Bob'' ''Ray'' ''40'', user_info ''Cy'' ''Fox'' ''50''])"
proof -
  let ?s = "run_state (three_rows_events @ [Edit_click 2])"
  have e: "app_edit (app ?s) = Some (the (app_edit (app ?s)))" and j: "0 < edit_index (the (app_edit (app ?s)))"
    and l: "Suc (edit_index (the (app_edit (app ?s)))) = length (submitted_data (app ?s))"
    and ne: "\<not> is_empty_form (form_fields (form ?s)) (form_data (form ?s))"
    and v: "\<forall>f\<in>set (form_fields (form ?s)). validate_field 0 (fname f) (obj_get (form_data (form ?s)) (fname f)) = None"
    and c: "remove_at 0 (submitted_data (app ?s)) = [user_info ''Bob'' ''Ray'' ''40'', user_info ''Cy'' ''Fox'' ''50'']"
    by code_simp+
  show ?thesis using lost_edit_after_delete [OF e j l ne v] e c by auto
qed

theorem edit_keeps_stale_progress_witness:
  "0 < length (submitted_data (app s_ann)) \<and>
   (\<exists>t s'. ui_step 0 (Edit_click 0) s_ann = Inr (t, s') \<and> progress (form s') = Num 0 \<and>
      progress_of (form_fields (form s')) (form_data (form s')) = Num 100)"
proof -
  have i: "0 < length (submitted_data (app s_ann))" by (simp add: s_ann_def)
  have fs: "lookup_schema (rec_type (submitted_data (app s_ann) ! 0)) = Some (the (lookup_schema ''userInfo''))"
    and f: "\<forall>f\<in>set (the (lookup_schema ''userInfo'')). trim_truthy (obj_get (rec_data (submitted_data (app s_ann) ! 0)) (fname f))"
    and p: "progress (form s_ann) = Num 0"
    by code_simp+
  have "progress (form s_ann) \<noteq> Num 100" using p by simp
  then show ?thesis using edit_keeps_stale_progress [OF i fs f, of 0] i p by auto
qed

theorem blank_value_accepted_witness:
  "field ''lastName'' Text ''Last Name'' \<in> set (form_fields (form s_partial)) \<and>
   (\<exists>s'. ui_step 0 (Type_in (field ''lastName'' Text ''Last Name'') ''  '') s_partial = Inr (None, s') \<and>
      obj_get (errors (form s')) ''lastName'' = Some None \<and> \<not> trim_truthy (obj_get (form_data (form s')) ''lastName''))"
proof -
  have f: "field ''lastName'' Text ''Last Name'' \<in> set (form_fields (form s_partial))"
    and t: "ftype (field ''lastName'' Text ''Last Name'') \<noteq> Dropdown"
    and k: "fname (field ''lastName'' Text ''Last Name'') \<notin> set rule_keys"
    and b: "list_all js_space ''  ''"
    by code_simp+
  have n: "''  '' \<noteq> []" by simp
  have "\<exists>s'. ui_step 0 (Type_in (field ''lastName'' Text ''Last Name'') ''  '') s_partial = Inr (None, s') \<and>
      obj_get (errors (form s')) (fname (field ''lastName'' Text ''Last Name'')) = Some None \<and>
      \<not> trim_truthy (obj_get (form_data (form s')) (fname (field ''lastName'' Text ''Last Name'')))"
    using blank_value_accepted [OF f t k n b, of 0] by blast
  then show ?thesis using f by (simp add: field_def)
qed

theorem reachable_table_rows_witness:
  "reachable s_ann \<and> user_info ''Ann'' ''Lee'' ''30'' \<in> set (submitted_data (app s_ann)) \<and>
   (\<exists>fs. lookup_schema (rec_type (user_info ''Ann'' ''Lee'' ''30'')) = Some fs \<and>
         fst (render_row (user_info ''Ann'' ''Lee'' ''30'')) \<noteq> [] \<and>
         distinct (map fst (snd (render_row (user_info ''Ann'' ''Lee'' ''30'')))) \<and>
         set (map fst (snd (render_row (user_info ''Ann'' ''Lee'' ''30'')))) = (\<lambda>f. format_key (fname f) @ '':'') ` set fs \<and>
         map snd (snd (render_row (user_info ''Ann'' ''Lee'' ''30''))) = map snd (rec_data (user_info ''Ann'' ''Lee'' ''30'')))"
proof -
  have m: "user_info ''Ann'' ''Lee'' ''30'' \<in> set (submitted_data (app s_ann))"
    by (simp add: s_ann_def)
  show ?thesis using reachable_s_ann m reachable_table_rows [OF reachable_s_ann m] by blast
qed

theorem row_buttons_act_on_row_witness:
  "reachable s_ann \<and> 0 < length (submitted_data (app s_ann)) \<and>
   data_table (submitted_data (app s_ann)) ! 0 = (render_row (user_info ''Ann'' ''Lee'' ''30''), row_buttons 0) \<and>
   (\<exists>t s'. ui_step 0 (Edit_click 0) s_ann = Inr (t, s') \<and>
      render_row \<lparr>rec_type = form_type (form s'), rec_data = form_data (form s')\<rparr> =
        render_row (user_info ''Ann'' ''Lee'' ''30''))"
proof -
  have l: "0 < length (submitted_data (app s_ann))" by (simp add: s_ann_def)
  have d: "data_table (submitted_data (app s_ann)) ! 0 = (render_row (user_info ''Ann'' ''Lee'' ''30''), row_buttons 0)"
    by (simp add: s_ann_def data_table_def)
  have b: "(''Edit'', Edit_button 0) \<in> set (row_buttons 0)" by (simp add: row_buttons_def)
  show ?thesis using row_buttons_act_on_row [OF reachable_s_ann l d, of 0] b reachable_s_ann l d by blast
qed

theorem reachable_page_renders_witness:
  "reachable s_ann \<and>
   (\<exists>fv. render_page s_ann = Inr (fv, app_table (app s_ann)) \<and>
         map fv_label (field_views fv) = map flabel (form_fields (form s_ann)) \<and>
         list_all (\<lambda>v. case fv_control v of Select_control os \<Rightarrow> fv_value v \<in> fst ` set os | Input_control _ \<Rightarrow> True)
           (field_views fv))"
  using reachable_s_ann reachable_page_renders [OF reachable_s_ann] by blast

theorem refused_submit_error_lines_witness:
  "reachable s_partial \<and> \<not> is_empty_form (form_fields (form s_partial)) (form_data (form s_partial)) \<and>
   field ''lastName'' Text ''Last Name'' \<in> set (form_fields (form s_partial)) \<and>
   validate_field 0 (fname (field ''lastName'' Text ''Last Name''))
     (obj_get (form_data (form s_partial)) (fname (field ''lastName'' Text ''Last Name''))) \<noteq> None \<and>
   (\<exists>t s' fv. ui_step 0 Submit s_partial = Inr (t, s') \<and> render_form (app_edit (app s')) (form s') = Inr fv \<and>
      map fv_error (field_views fv) =
        map (\<lambda>g. validate_field 0 (fname g) (obj_get (form_data (form s_partial)) (fname g))) (form_fields (form s_partial)))"
proof -
  have ne: "\<not> is_empty_form (form_fields (form s_partial)) (form_data (form s_partial))"
    and f: "field ''lastName'' Text ''Last Name'' \<in> set (form_fields (form s_partial))"
    and v: "validate_field 0 (fname (field ''lastName'' Text ''Last Name''))
              (obj_get (form_data (form s_partial)) (fname (field ''lastName'' Text ''Last Name''))) \<noteq> None"
    by code_simp+
  show ?thesis using reachable_s_partial ne f v refused_submit_error_lines [OF reachable_s_partial ne f v] by blast
qed

theorem store_refinement_witness:
  "reachable s_ann \<and> ui_enabled s_ann (Delete_click True 0) \<and>
   ui_step 0 (Delete_click True 0) s_ann =
     Inr (Some (Toast_success ''Form deleted successfully.''), s_ann\<lparr>app := \<lparr>submitted_data = [], app_edit = None\<rparr>\<rparr>) \<and>
   (case store_op_of 0 (Delete_click True 0) s_ann of
      None \<Rightarrow> submitted_data (app (s_ann\<lparr>app := \<lparr>submitted_data = [], app_edit = None\<rparr>\<rparr>)) = submitted_data (app s_ann)
    | Some op \<Rightarrow> op_record_ok op \<and>
        (store_apply op (submitted_data (app s_ann)) =
           Inr (submitted_data (app (s_ann\<lparr>app := \<lparr>submitted_data = [], app_edit = None\<rparr>\<rparr>))) \<or>
         (\<exists>i r. op = ReplaceAt i r \<and> store_apply op (submitted_data (app s_ann)) = Inl IndexOutOfRange \<and>
                submitted_data (app (s_ann\<lparr>app := \<lparr>submitted_data = [], app_edit = None\<rparr>\<rparr>)) = submitted_data (app s_ann))))"
proof -
  have e: "ui_enabled s_ann (Delete_click True 0)" by (simp add: ui_enabled_def s_ann_def)
  have st: "ui_step 0 (Delete_click True 0) s_ann =
     Inr (Some (Toast_success ''Form deleted successfully.''), s_ann\<lparr>app := \<lparr>submitted_data = [], app_edit = None\<rparr>\<rparr>)"
    by code_simp
  show ?thesis using reachable_s_ann e st store_refinement [OF reachable_s_ann e st] by blast
qed

theorem can_store_valid_record_witness:
  "lookup_schema ''userInfo'' = Some (the (lookup_schema ''userInfo'')) \<and>
   length [''Ann'', ''Lee'', ''30''] = length (the (lookup_schema ''userInfo'')) \<and>
   list_all2 (\<lambda>f v. validate_field 0 (fname f) (Some v) = None \<and>
                    (ftype f = Dropdown \<longrightarrow> v \<in> set (select_values f)))
     (the (lookup_schema ''userInfo'')) [''Ann'', ''Lee'', ''30''] \<and>
   run_enabled 0 (entry_events ''userInfo'' (the (lookup_schema ''userInfo'')) [''Ann'', ''Lee'', ''30'']) s_ann \<and>
   (\<exists>s'. ui_run 0 (entry_events ''userInfo'' (the (lookup_schema ''userInfo'')) [''Ann'', ''Lee'', ''30'']) s_ann = Inr s' \<and>
         app_edit (app s') = None \<and>
         submitted_data (app s') =
           (let r = \<lparr>rec_type = ''userInfo'', rec_data = zip (map fname (the (lookup_schema ''userInfo''))) [''Ann'', ''Lee'', ''30'']\<rparr> in
            case app_edit (app s_ann) of
              None \<Rightarrow> submitted_data (app s_ann) @ [r]
            | Some e \<Rightarrow> (submitted_data (app s_ann))[edit_index e := r]))"
proof -
  have l: "lookup_schema ''userInfo'' = Some (the (lookup_schema ''userInfo''))"
    and n: "length [''Ann'', ''Lee'', ''30''] = length (the (lookup_schema ''userInfo''))"
    and v: "list_all2 (\<lambda>f v. validate_field 0 (fname f) (Some v) = None \<and>
                    (ftype f = Dropdown \<longrightarrow> v \<in> set (select_values f)))
             (the (lookup_schema ''userInfo'')) [''Ann'', ''Lee'', ''30'']"
    by code_simp+
  show ?thesis using l n v can_store_valid_record [OF l n v, of s_ann] by blast
qed


end
